theory Spec2Isabelle
  imports Main "HOL-Library.AList"
begin

section \<open>Python string primitives used by the handlers\<close>

text \<open>
  The handlers of \<^verbatim>\<open>bot.py\<close> use three primitives of Python's \<^verbatim>\<open>str\<close>:
  \<^verbatim>\<open>split()\<close> without arguments, \<^verbatim>\<open>startswith\<close> with a tuple of prefixes, and the
  constructor \<^verbatim>\<open>int(...)\<close>. A \<open>char\<close> stands for one code point below 256; the
  whitespace characters of \<^verbatim>\<open>split\<close> are those for which \<^verbatim>\<open>str.isspace\<close> holds in that
  range. \<^verbatim>\<open>int\<close> is modelled on unbounded integers, without the interpreter's
  configurable limit on the number of digits.
\<close>

definition is_space :: "char \<Rightarrow> bool" where
  "is_space c \<longleftrightarrow> c \<in> set [CHR 0x09, CHR 0x0A, CHR 0x0B, CHR 0x0C, CHR 0x0D,
                            CHR 0x1C, CHR 0x1D, CHR 0x1E, CHR 0x1F, CHR 0x20,
                            CHR 0x85, CHR 0xA0]"

text \<open>\<^verbatim>\<open>s.split()\<close>: maximal runs of non-whitespace characters, in order.\<close>

function py_split :: "string \<Rightarrow> string list" where
  "py_split s =
     (case dropWhile is_space s of
        [] \<Rightarrow> []
      | c # cs \<Rightarrow> takeWhile (\<lambda>x. \<not> is_space x) (c # cs)
                 # py_split (dropWhile (\<lambda>x. \<not> is_space x) (c # cs)))"
  by pat_completeness auto
termination
proof (relation "measure length")
  show "wf (measure length)" by simp
next
  fix s :: string and c cs
  assume d: "dropWhile is_space s = c # cs"
  then have nsp: "\<not> is_space c"
    by (metis hd_dropWhile list.distinct(1) list.sel(1))
  have "length (dropWhile (\<lambda>x. \<not> is_space x) (c # cs)) \<le> length cs"
    using nsp by (simp add: length_dropWhile_le)
  also have "length cs < length (dropWhile is_space s)"
    using d by simp
  also have "\<dots> \<le> length s"
    by (rule length_dropWhile_le)
  finally show "(dropWhile (\<lambda>x. \<not> is_space x) (c # cs), s) \<in> measure length"
    by simp
qed

declare py_split.simps [simp del]

text \<open>
  The characters that \<^verbatim>\<open>int\<close> strips from both ends of its argument: the six ASCII
  ones and, above ASCII, U+0085 and U+00A0, but not U+001C to U+001F.
\<close>

definition is_int_space :: "char \<Rightarrow> bool" where
  "is_int_space c \<longleftrightarrow> c \<in> set [CHR 0x09, CHR 0x0A, CHR 0x0B, CHR 0x0C, CHR 0x0D, CHR 0x20,
                                CHR 0x85, CHR 0xA0]"

definition int_strip :: "string \<Rightarrow> string" where
  "int_strip s = rev (dropWhile is_int_space (rev (dropWhile is_int_space s)))"

text \<open>\<^verbatim>\<open>new_link.startswith(('http://', 'https://'))\<close> (line 117).\<close>

definition startswith :: "string \<Rightarrow> string \<Rightarrow> bool" where
  "startswith s p \<longleftrightarrow> take (length p) s = p"

definition valid_url :: "string \<Rightarrow> bool" where
  "valid_url s \<longleftrightarrow> startswith s ''http://'' \<or> startswith s ''https://''"

text \<open>
  \<^verbatim>\<open>int(s)\<close> on a string: surrounding blanks are stripped, one sign is allowed, then
  decimal digits, where a single underscore may stand between two digits. Any other
  input raises \<^verbatim>\<open>ValueError\<close>, which is the value \<open>None\<close> here.
\<close>

definition is_digit :: "char \<Rightarrow> bool" where
  "is_digit c \<longleftrightarrow> c \<in> set ''0123456789''"

definition digit_val :: "char \<Rightarrow> nat" where
  "digit_val c = of_char c - 48"

fun parse_digits :: "string \<Rightarrow> nat \<Rightarrow> nat option" where
  "parse_digits [] acc = Some acc"
| "parse_digits (c # cs) acc =
     (if is_digit c then parse_digits cs (acc * 10 + digit_val c)
      else if c = CHR ''_'' \<and> cs \<noteq> [] \<and> is_digit (hd cs) then parse_digits cs acc
      else None)"

definition parse_unsigned :: "string \<Rightarrow> nat option" where
  "parse_unsigned s =
     (case s of
        [] \<Rightarrow> None
      | c # cs \<Rightarrow> if is_digit c then parse_digits (c # cs) 0 else None)"

definition py_int :: "string \<Rightarrow> int option" where
  "py_int s =
     (case int_strip s of
        [] \<Rightarrow> None
      | c # cs \<Rightarrow>
          if c = CHR ''-'' then map_option (\<lambda>n. - int n) (parse_unsigned cs)
          else if c = CHR ''+'' then map_option int (parse_unsigned cs)
          else map_option int (parse_unsigned (c # cs)))"

text \<open>\<^verbatim>\<open>str(h)\<close> for an integer: the decimal digits, with a leading minus sign.\<close>

definition digit_char :: "nat \<Rightarrow> char" where
  "digit_char d = ''0123456789'' ! d"

function str_nat :: "nat \<Rightarrow> string" where
  "str_nat n = (if n < 10 then [digit_char n] else str_nat (n div 10) @ [digit_char (n mod 10)])"
  by pat_completeness auto
termination
  by (relation "measure id") auto

declare str_nat.simps [simp del]

definition py_str :: "int \<Rightarrow> string" where
  "py_str h = (if h < 0 then CHR ''-'' # str_nat (nat (- h)) else str_nat (nat h))"

section \<open>Data model\<close>

text \<open>
  The process configuration read once at start-up (lines 20 to 23): the list
  \<^verbatim>\<open>ADMIN_IDS\<close> and \<^verbatim>\<open>DEFAULT_LINK\<close>, which is \<^verbatim>\<open>os.getenv("DEFAULT_LINK")\<close> and
  therefore \<^verbatim>\<open>None\<close> when the variable is unset. No check is applied to it.
\<close>

record config =
  ADMIN_IDS :: "int list"
  DEFAULT_LINK :: "string option"

text \<open>The values of \<^verbatim>\<open>GROUP_INFO\<close>: \<^verbatim>\<open>{"title": ..., "link": ...}\<close>.\<close>

record group_info =
  title :: string
  link :: "string option"

text \<open>
  The module-level mutable state (lines 29 to 32 and the global \<^verbatim>\<open>MESSAGE_INTERVAL\<close>).
  \<^verbatim>\<open>GROUP_INFO\<close> is an association list in insertion order, because \<^verbatim>\<open>show_stats\<close>
  iterates over its items; assignment to a present key keeps its position and a new
  key is appended, which is what \<open>AList.update\<close> does. A time is a number of seconds
  counted from 1 January 1970, a duration a number of seconds.
\<close>

record state =
  ACTIVE_GROUPS :: "int set"
  GROUP_LINKS :: "int \<rightharpoonup> string"
  GROUP_INFO :: "(int \<times> group_info) list"
  LAST_MESSAGE_TIMES :: "int \<rightharpoonup> int"
  MESSAGE_INTERVAL :: int

datatype chat_type = Private | Group | Supergroup | Channel

text \<open>The fields of an inbound \<^verbatim>\<open>message\<close> that the handlers read.\<close>

record message =
  chat_id :: int
  chat_kind :: chat_type
  from_user_id :: int
  msg_text :: string
  new_chat_members :: "int list"
  left_chat_member :: int

text \<open>
  The result of \<^verbatim>\<open>get_next_post_time\<close> and the texts the bot sends. Each constructor is
  one literal of the source together with the values interpolated into it; the
  rendering of the text itself (emoji, Markdown, \<^verbatim>\<open>strftime\<close>) is not modelled.
\<close>

datatype next_post = NotPostedYet | NextAt int

text \<open>The exceptions of the standard library that the model distinguishes.\<close>

datatype py_error = ValueError | OverflowError

datatype text_out =
    HelpText
  | AdminHelp
  | UserHelp
  | UserId int
  | CurrentLink "string option"
  | AdminOnly
  | LinkUpdated string
  | UsageSetlink
  | ResetToDefault "string option"
  | IntervalSet int
  | UsageInterval
  | Stats nat int next_post "(string \<times> string option) list"
  | AdminPanel
  | UserMenu
  | Welcome string "string option"
  | GroupLink "string option" int
  | AdminTip

text \<open>
  What the process does to the outside: a reply to the chat of a message
  (\<^verbatim>\<open>bot.reply_to\<close>), a message to a chat (\<^verbatim>\<open>bot.send_message\<close>), each recorded when
  it is attempted, and a completed \<^verbatim>\<open>time.sleep\<close> with its duration in seconds.
\<close>

datatype action = Reply int text_out | Send int text_out | Sleep int

text \<open>
  The answers of the transport and of the clock while one handler, or one pass of the
  broadcaster, runs. \<open>None\<close> means that the call raised. \<open>set_order\<close> is the order in
  which \<^verbatim>\<open>list(ACTIVE_GROUPS)\<close> enumerates a set; it is left to the interpreter and is
  a parameter here. An exception of the transport is assumed to be neither an
  \<^verbatim>\<open>IndexError\<close> nor a \<^verbatim>\<open>ValueError\<close>.
\<close>

record env =
  now :: int
  get_me :: "int option"
  get_chat :: "int \<Rightarrow> string option"
  get_chat_administrators :: "int \<Rightarrow> int list option"
  send_message_ok :: "int \<Rightarrow> text_out \<Rightarrow> bool"
  set_order :: "int set \<Rightarrow> int list"

text \<open>How a handler ends: it returns, or an exception leaves it.\<close>

datatype exit = Returned | Raised

type_synonym outcome = "state \<times> action list \<times> exit"

definition initial_state :: "int \<Rightarrow> state" where
  "initial_state iv =
     \<lparr>ACTIVE_GROUPS = {}, GROUP_LINKS = Map.empty, GROUP_INFO = [],
      LAST_MESSAGE_TIMES = Map.empty, MESSAGE_INTERVAL = iv\<rparr>"


section \<open>Helper functions\<close>

definition is_admin :: "config \<Rightarrow> int \<Rightarrow> bool" where
  "is_admin cfg user_id \<longleftrightarrow> user_id \<in> set (ADMIN_IDS cfg)"

definition is_group_admin :: "env \<Rightarrow> message \<Rightarrow> bool" where
  "is_group_admin e m =
     (if chat_kind m \<noteq> Group \<and> chat_kind m \<noteq> Supergroup then False
      else case get_chat_administrators e (chat_id m) of
             None \<Rightarrow> False
           | Some admins \<Rightarrow> list_ex (\<lambda>a. a = from_user_id m) admins)"

text \<open>The expression \<^verbatim>\<open>GROUP_LINKS.get(chat_id, DEFAULT_LINK)\<close> (lines 76, 106, 287).\<close>

definition get_link :: "config \<Rightarrow> state \<Rightarrow> int \<Rightarrow> string option" where
  "get_link cfg st cid =
     (case GROUP_LINKS st cid of Some l \<Rightarrow> Some l | None \<Rightarrow> DEFAULT_LINK cfg)"

text \<open>
  \<^verbatim>\<open>get_next_post_time\<close> (lines 48 to 52). \<^verbatim>\<open>timedelta(seconds=...)\<close> raises
  \<^verbatim>\<open>OverflowError\<close> beyond 999999999 days in either direction, and the sum does when
  it leaves the years 1 to 9999 of \<^verbatim>\<open>datetime\<close>.
\<close>

definition get_next_post_time :: "state \<Rightarrow> int \<Rightarrow> py_error + next_post" where
  "get_next_post_time st cid =
     (case LAST_MESSAGE_TIMES st cid of
        None \<Rightarrow> Inr NotPostedYet
      | Some t \<Rightarrow>
          if MESSAGE_INTERVAL st < - 86399999913600 \<or> 86399999999999 < MESSAGE_INTERVAL st
          then Inl OverflowError
          else if t + MESSAGE_INTERVAL st < - 62135596800 \<or>
                  253402300799 < t + MESSAGE_INTERVAL st
          then Inl OverflowError
          else Inr (NextAt (t + MESSAGE_INTERVAL st)))"

text \<open>
  \<^verbatim>\<open>bot.reply_to(message, t)\<close> as the last statement of a handler in state \<open>st\<close>: the
  handler returns, or the exception of the transport leaves it.
\<close>

definition reply_to :: "env \<Rightarrow> message \<Rightarrow> text_out \<Rightarrow> state \<Rightarrow> outcome" where
  "reply_to e m t st =
     (st, [Reply (chat_id m) t],
      if send_message_ok e (chat_id m) t then Returned else Raised)"

text \<open>
  \<^verbatim>\<open>send_welcome_and_link\<close> is defined twice (lines 54 and 282). Every call happens
  after the module is loaded, so the name denotes the second definition, which is the
  one modelled. Every exception is caught inside.
\<close>

definition send_welcome_and_link :: "config \<Rightarrow> env \<Rightarrow> int \<Rightarrow> state \<Rightarrow> state \<times> action list" where
  "send_welcome_and_link cfg e cid st =
     (case get_chat e cid of
        None \<Rightarrow> (st, [])
      | Some ttl \<Rightarrow>
          let info = \<lparr>title = ttl, link = get_link cfg st cid\<rparr>;
              st1 = st\<lparr>GROUP_INFO := AList.update cid info (GROUP_INFO st)\<rparr>;
              link_msg = Welcome ttl (link info)
          in if send_message_ok e cid link_msg
             then (st1\<lparr>LAST_MESSAGE_TIMES := (LAST_MESSAGE_TIMES st1)(cid \<mapsto> now e)\<rparr>,
                   [Send cid link_msg])
             else (st1, [Send cid link_msg]))"

definition send_link_to_group :: "config \<Rightarrow> env \<Rightarrow> int \<Rightarrow> state \<Rightarrow> state \<times> action list" where
  "send_link_to_group cfg e cid st =
     (let message = GroupLink (get_link cfg st cid) (now e)
      in if send_message_ok e cid message
         then (st\<lparr>LAST_MESSAGE_TIMES := (LAST_MESSAGE_TIMES st)(cid \<mapsto> now e)\<rparr>,
               [Send cid message])
         else (st\<lparr>ACTIVE_GROUPS := ACTIVE_GROUPS st - {cid}\<rparr>, [Send cid message]))"

section \<open>Command handlers\<close>

text \<open>
  \<^verbatim>\<open>send_help\<close> is registered twice for the same command (lines 86 and 246); which of
  the two the transport calls is its own matter, and both are given. Neither touches
  the state.
\<close>

definition send_help_first :: "config \<Rightarrow> env \<Rightarrow> message \<Rightarrow> state \<Rightarrow> outcome" where
  "send_help_first cfg e m st = reply_to e m HelpText st"

definition send_help :: "config \<Rightarrow> env \<Rightarrow> message \<Rightarrow> state \<Rightarrow> outcome" where
  "send_help cfg e m st =
     reply_to e m (if is_admin cfg (from_user_id m) then AdminHelp else UserHelp) st"

definition show_user_id :: "config \<Rightarrow> env \<Rightarrow> message \<Rightarrow> state \<Rightarrow> outcome" where
  "show_user_id cfg e m st = reply_to e m (UserId (from_user_id m)) st"

definition show_link :: "config \<Rightarrow> env \<Rightarrow> message \<Rightarrow> state \<Rightarrow> outcome" where
  "show_link cfg e m st = reply_to e m (CurrentLink (get_link cfg st (chat_id m))) st"

text \<open>
  \<^verbatim>\<open>set_link\<close> (lines 109 to 125). \<^verbatim>\<open>message.text.split()[1]\<close> raises \<^verbatim>\<open>IndexError\<close> when
  the text has fewer than two tokens; that and the \<^verbatim>\<open>ValueError\<close> of the prefix check
  end in the usage reply.
\<close>

definition set_link :: "config \<Rightarrow> env \<Rightarrow> message \<Rightarrow> state \<Rightarrow> outcome" where
  "set_link cfg e m st =
     (if \<not> (is_admin cfg (from_user_id m) \<or> is_group_admin e m)
      then reply_to e m AdminOnly st
      else case py_split (msg_text m) of
             _ # new_link # _ \<Rightarrow>
               if \<not> valid_url new_link then reply_to e m UsageSetlink st
               else
                 let st1 = st\<lparr>GROUP_LINKS := (GROUP_LINKS st)(chat_id m \<mapsto> new_link)\<rparr>;
                     st2 = (if chat_id m \<in> fst ` set (GROUP_INFO st1)
                            then st1\<lparr>GROUP_INFO :=
                                   AList.map_entry (chat_id m) (\<lambda>i. i\<lparr>link := Some new_link\<rparr>)
                                     (GROUP_INFO st1)\<rparr>
                            else st1)
                 in reply_to e m (LinkUpdated new_link) st2
           | _ \<Rightarrow> reply_to e m UsageSetlink st)"

definition default_link :: "config \<Rightarrow> env \<Rightarrow> message \<Rightarrow> state \<Rightarrow> outcome" where
  "default_link cfg e m st =
     (if \<not> (is_admin cfg (from_user_id m) \<or> is_group_admin e m)
      then reply_to e m AdminOnly st
      else
        let st1 = (if chat_id m \<in> dom (GROUP_LINKS st)
                   then st\<lparr>GROUP_LINKS := (GROUP_LINKS st)(chat_id m := None)\<rparr>
                   else st);
            st2 = (if chat_id m \<in> fst ` set (GROUP_INFO st1)
                   then st1\<lparr>GROUP_INFO :=
                          AList.map_entry (chat_id m) (\<lambda>i. i\<lparr>link := DEFAULT_LINK cfg\<rparr>)
                            (GROUP_INFO st1)\<rparr>
                   else st1)
        in reply_to e m (ResetToDefault (DEFAULT_LINK cfg)) st2)"

definition set_interval :: "config \<Rightarrow> env \<Rightarrow> message \<Rightarrow> state \<Rightarrow> outcome" where
  "set_interval cfg e m st =
     (if \<not> (is_admin cfg (from_user_id m) \<or> is_group_admin e m)
      then reply_to e m AdminOnly st
      else case py_split (msg_text m) of
             _ # tok # _ \<Rightarrow>
               (case py_int tok of
                  None \<Rightarrow> reply_to e m UsageInterval st
                | Some hours \<Rightarrow>
                    reply_to e m (IntervalSet hours) (st\<lparr>MESSAGE_INTERVAL := hours * 3600\<rparr>))
           | _ \<Rightarrow> reply_to e m UsageInterval st)"

text \<open>
  \<^verbatim>\<open>show_stats\<close> (lines 153 to 171). The text is built before it is sent, so an
  exception of \<^verbatim>\<open>get_next_post_time\<close> leaves the handler without a reply.
\<close>

definition show_stats :: "config \<Rightarrow> env \<Rightarrow> message \<Rightarrow> state \<Rightarrow> outcome" where
  "show_stats cfg e m st =
     (if \<not> is_admin cfg (from_user_id m) then reply_to e m AdminOnly st
      else case get_next_post_time st (chat_id m) of
             Inl err \<Rightarrow> (st, [], Raised)
           | Inr next_post \<Rightarrow>
               reply_to e m
                 (Stats (card (ACTIVE_GROUPS st)) (MESSAGE_INTERVAL st div 3600) next_post
                    (map (\<lambda>(group_id, info). (title info, link info)) (GROUP_INFO st)))
                 st)"

section \<open>Group management\<close>

text \<open>Actions \<open>acts\<close> done before the rest of a handler runs.\<close>

definition after :: "action list \<Rightarrow> outcome \<Rightarrow> outcome" where
  "after acts r = (case r of (st, acts', x) \<Rightarrow> (st, acts @ acts', x))"

text \<open>
  \<^verbatim>\<open>new_member\<close> is registered twice as well (lines 186 and 310). The loop runs over
  \<^verbatim>\<open>message.new_chat_members\<close>; \<^verbatim>\<open>bot.get_me()\<close> is a call of the transport and is
  outside any \<^verbatim>\<open>try\<close>, as is the admin tip of the second definition.
\<close>

fun new_member_first_loop :: "config \<Rightarrow> env \<Rightarrow> message \<Rightarrow> int list \<Rightarrow> state \<Rightarrow> outcome" where
  "new_member_first_loop cfg e m [] st = (st, [], Returned)"
| "new_member_first_loop cfg e m (member # rest) st =
     (case get_me e of
        None \<Rightarrow> (st, [], Raised)
      | Some me \<Rightarrow>
          if member = me then
            (case send_welcome_and_link cfg e (chat_id m)
                    (st\<lparr>ACTIVE_GROUPS := insert (chat_id m) (ACTIVE_GROUPS st)\<rparr>) of
               (st2, acts) \<Rightarrow> after acts (new_member_first_loop cfg e m rest st2))
          else new_member_first_loop cfg e m rest st)"

definition new_member_first :: "config \<Rightarrow> env \<Rightarrow> message \<Rightarrow> state \<Rightarrow> outcome" where
  "new_member_first cfg e m st = new_member_first_loop cfg e m (new_chat_members m) st"

fun new_member_loop :: "config \<Rightarrow> env \<Rightarrow> message \<Rightarrow> int list \<Rightarrow> state \<Rightarrow> outcome" where
  "new_member_loop cfg e m [] st = (st, [], Returned)"
| "new_member_loop cfg e m (member # rest) st =
     (case get_me e of
        None \<Rightarrow> (st, [], Raised)
      | Some me \<Rightarrow>
          if member = me then
            (case send_welcome_and_link cfg e (chat_id m)
                    (st\<lparr>ACTIVE_GROUPS := insert (chat_id m) (ACTIVE_GROUPS st)\<rparr>) of
               (st2, acts) \<Rightarrow>
                 if is_admin cfg (from_user_id m) \<or> is_group_admin e m then
                   if send_message_ok e (chat_id m) AdminTip
                   then after (acts @ [Send (chat_id m) AdminTip])
                          (new_member_loop cfg e m rest st2)
                   else (st2, acts @ [Send (chat_id m) AdminTip], Raised)
                 else after acts (new_member_loop cfg e m rest st2))
          else new_member_loop cfg e m rest st)"

definition new_member :: "config \<Rightarrow> env \<Rightarrow> message \<Rightarrow> state \<Rightarrow> outcome" where
  "new_member cfg e m st = new_member_loop cfg e m (new_chat_members m) st"

definition left_member :: "config \<Rightarrow> env \<Rightarrow> message \<Rightarrow> state \<Rightarrow> outcome" where
  "left_member cfg e m st =
     (case get_me e of
        None \<Rightarrow> (st, [], Raised)
      | Some me \<Rightarrow>
          if left_chat_member m = me then
            let st1 = st\<lparr>ACTIVE_GROUPS := ACTIVE_GROUPS st - {chat_id m}\<rparr>;
                st2 = (if chat_id m \<in> fst ` set (GROUP_INFO st1)
                       then st1\<lparr>GROUP_INFO := AList.delete (chat_id m) (GROUP_INFO st1)\<rparr>
                       else st1)
            in (st2, [], Returned)
          else (st, [], Returned))"

definition start_command :: "config \<Rightarrow> env \<Rightarrow> message \<Rightarrow> state \<Rightarrow> outcome" where
  "start_command cfg e m st =
     (let t = (if is_admin cfg (from_user_id m) then AdminPanel else UserMenu)
      in if \<not> send_message_ok e (chat_id m) t then (st, [Reply (chat_id m) t], Raised)
         else if chat_kind m = Group \<or> chat_kind m = Supergroup then
           let st1 = st\<lparr>ACTIVE_GROUPS := insert (chat_id m) (ACTIVE_GROUPS st)\<rparr>
           in if chat_id m \<notin> fst ` set (GROUP_INFO st1)
              then (case send_welcome_and_link cfg e (chat_id m) st1 of
                      (st2, acts) \<Rightarrow> (st2, Reply (chat_id m) t # acts, Returned))
              else (st1, [Reply (chat_id m) t], Returned)
         else (st, [Reply (chat_id m) t], Returned))"

section \<open>Automatic link sending\<close>

text \<open>The \<^verbatim>\<open>for\<close> loop of \<^verbatim>\<open>send_links_periodically\<close> over a copy \<open>ids\<close> of the active set.\<close>

fun broadcast_pass :: "config \<Rightarrow> env \<Rightarrow> int list \<Rightarrow> state \<Rightarrow> state \<times> action list" where
  "broadcast_pass cfg e [] st = (st, [])"
| "broadcast_pass cfg e (group_id # rest) st =
     (case send_link_to_group cfg e group_id st of
        (st1, acts) \<Rightarrow>
          (case broadcast_pass cfg e rest st1 of
             (st2, acts2) \<Rightarrow> (st2, acts @ acts2)))"

text \<open>
  \<^verbatim>\<open>time.sleep(secs)\<close> for an integer: \<^verbatim>\<open>ValueError\<close> for a negative argument,
  \<^verbatim>\<open>OverflowError\<close> when the duration in nanoseconds does not fit a signed 64-bit
  integer, that is above 9223372036 seconds; otherwise it sleeps.
\<close>

definition time_sleep :: "int \<Rightarrow> py_error + action" where
  "time_sleep secs =
     (if secs < 0 then Inl ValueError
      else if 9223372036854775807 < secs * 1000000000 then Inl OverflowError
      else Inr (Sleep secs))"

text \<open>
  One run of the body of \<^verbatim>\<open>while True\<close> (lines 176 to 182): the pass, then
  \<^verbatim>\<open>time.sleep(MESSAGE_INTERVAL)\<close>, and \<^verbatim>\<open>time.sleep(60)\<close> when an exception was caught.
  \<^verbatim>\<open>send_link_to_group\<close> catches every exception itself, so only the sleep can raise.
\<close>

definition loop_iteration :: "config \<Rightarrow> env \<Rightarrow> state \<Rightarrow> state \<times> action list" where
  "loop_iteration cfg e st =
     (case broadcast_pass cfg e (set_order e (ACTIVE_GROUPS st)) st of
        (st1, acts) \<Rightarrow>
          (case time_sleep (MESSAGE_INTERVAL st1) of
             Inr a \<Rightarrow> (st1, acts @ [a])
           | Inl err \<Rightarrow> (st1, acts @ [Sleep 60])))"

text \<open>
  The loop never exits; it is run for as many iterations as there are environments in
  the list, one for each iteration, and returns the state and everything done so far.
\<close>

fun send_links_periodically :: "config \<Rightarrow> env list \<Rightarrow> state \<Rightarrow> state \<times> action list" where
  "send_links_periodically cfg [] st = (st, [])"
| "send_links_periodically cfg (e # es) st =
     (case loop_iteration cfg e st of
        (st1, acts) \<Rightarrow>
          (case send_links_periodically cfg es st1 of
             (st2, acts2) \<Rightarrow> (st2, acts @ acts2)))"

section \<open>Runs of the process\<close>

text \<open>
  An event is a call of one handler by the transport, or one iteration of the
  broadcaster; an iteration is taken as a whole, without a handler running in its
  middle.
\<close>

datatype handler =
    SendHelpFirst | SendHelp | ShowUserId | ShowLink | SetLink | DefaultLink
  | SetInterval | ShowStats | NewMemberFirst | NewMember | LeftMember | StartCommand

fun handle :: "config \<Rightarrow> handler \<Rightarrow> env \<Rightarrow> message \<Rightarrow> state \<Rightarrow> outcome" where
  "handle cfg SendHelpFirst = send_help_first cfg"
| "handle cfg SendHelp = send_help cfg"
| "handle cfg ShowUserId = show_user_id cfg"
| "handle cfg ShowLink = show_link cfg"
| "handle cfg SetLink = set_link cfg"
| "handle cfg DefaultLink = default_link cfg"
| "handle cfg SetInterval = set_interval cfg"
| "handle cfg ShowStats = show_stats cfg"
| "handle cfg NewMemberFirst = new_member_first cfg"
| "handle cfg NewMember = new_member cfg"
| "handle cfg LeftMember = left_member cfg"
| "handle cfg StartCommand = start_command cfg"

datatype event = Inbound handler env message | Iteration env

fun step :: "config \<Rightarrow> event \<Rightarrow> state \<Rightarrow> state" where
  "step cfg (Inbound h e m) st = fst (handle cfg h e m st)"
| "step cfg (Iteration e) st = fst (loop_iteration cfg e st)"

inductive reachable :: "config \<Rightarrow> state \<Rightarrow> bool" for cfg :: config where
  start: "reachable cfg (initial_state iv)"
| event: "reachable cfg st \<Longrightarrow> reachable cfg (step cfg ev st)"

text \<open>
  The process as it is started (lines 326 to 337): the broadcaster thread is started
  once, on the state of the freshly loaded module, and then the polling begins. A
  schedule gives, for each iteration of the broadcaster, its environment and the
  inbound messages that the handlers serve while that iteration sleeps. The result
  is the state and the actions of the broadcaster thread.
\<close>

type_synonym inbound = "handler \<times> env \<times> message"

fun polling :: "config \<Rightarrow> inbound list \<Rightarrow> state \<Rightarrow> state" where
  "polling cfg [] st = st"
| "polling cfg ((h, e, m) # rest) st = polling cfg rest (fst (handle cfg h e m st))"

fun scheduler :: "config \<Rightarrow> (env \<times> inbound list) list \<Rightarrow> state \<Rightarrow> state \<times> action list" where
  "scheduler cfg [] st = (st, [])"
| "scheduler cfg ((e, msgs) # rest) st =
     (case loop_iteration cfg e st of
        (st1, acts) \<Rightarrow>
          (case scheduler cfg rest (polling cfg msgs st1) of
             (st2, acts2) \<Rightarrow> (st2, acts @ acts2)))"


section \<open>A sample configuration\<close>

text \<open>
  One process-wide admin (user 1), one chat-level admin (user 2), the bot itself
  (user 99) and a group chat (chat 5), used to run the handlers on concrete inputs.
\<close>

definition sample_cfg :: config where
  "sample_cfg = \<lparr>ADMIN_IDS = [1], DEFAULT_LINK = Some ''https://t.me/default''\<rparr>"

definition sample_env :: env where
  "sample_env =
     \<lparr>now = 1000, get_me = Some 99, get_chat = (\<lambda>c. Some ''Group''),
      get_chat_administrators = (\<lambda>c. Some [2]), send_message_ok = (\<lambda>c t. True),
      set_order = sorted_list_of_set\<rparr>"

definition sample_msg :: "int \<Rightarrow> string \<Rightarrow> message" where
  "sample_msg uid txt =
     \<lparr>chat_id = 5, chat_kind = Group, from_user_id = uid, msg_text = txt,
      new_chat_members = [], left_chat_member = 0\<rparr>"

definition bot_joined :: message where
  "bot_joined = (sample_msg 2 [])\<lparr>new_chat_members := [99]\<rparr>"

definition bot_left :: message where
  "bot_left = (sample_msg 2 [])\<lparr>left_chat_member := 99\<rparr>"

text \<open>The same transport, except that every send to chat \<open>g\<close> fails.\<close>

definition failing_env :: "int \<Rightarrow> env" where
  "failing_env g = sample_env\<lparr>send_message_ok := (\<lambda>c t. c \<noteq> g)\<rparr>"

section \<open>Notions used to state the properties\<close>

text \<open>The text that \<^verbatim>\<open>send_link_to_group\<close> sends to chat \<open>g\<close> in state \<open>st\<close>.\<close>

definition link_message :: "config \<Rightarrow> env \<Rightarrow> state \<Rightarrow> int \<Rightarrow> text_out" where
  "link_message cfg e st g = GroupLink (get_link cfg st g) (now e)"

text \<open>
  How long an iteration of the broadcaster sleeps when the interval is \<open>iv\<close>: \<open>iv\<close>
  seconds when \<^verbatim>\<open>time.sleep\<close> accepts them, the 60 seconds of the fallback otherwise.
\<close>

definition sleep_length :: "int \<Rightarrow> int" where
  "sleep_length iv = (if iv < 0 \<or> 9223372036 < iv then 60 else iv)"

text \<open>The durations of the sleeps in a list of actions, in order.\<close>

fun sleeps_of :: "action list \<Rightarrow> int list" where
  "sleeps_of [] = []"
| "sleeps_of (Sleep d # acts) = d # sleeps_of acts"
| "sleeps_of (a # acts) = sleeps_of acts"

text \<open>The state after the bot was added to chat 5 of the sample configuration.\<close>

definition joined_state :: state where
  "joined_state = fst (new_member sample_cfg sample_env bot_joined (initial_state 86400))"

text \<open>A state in which chats 3, 5 and 8 are active.\<close>

definition three_groups :: state where
  "three_groups = joined_state\<lparr>ACTIVE_GROUPS := {3, 5, 8}\<rparr>"

text \<open>A configuration whose default link is not a URL.\<close>

definition unchecked_cfg :: config where
  "unchecked_cfg = \<lparr>ADMIN_IDS = [1], DEFAULT_LINK = Some ''example.org''\<rparr>"

text \<open>The state after the admin set a link in chat 5.\<close>

definition linked_state :: state where
  "linked_state =
     fst (set_link sample_cfg sample_env (sample_msg 1 ''/setlink https://a.example'') joined_state)"

section \<open>Authorization\<close>

text \<open>
  Claim C4. A caller who is neither a process-wide admin nor a chat-level admin gets
  the fixed denial reply from \<^verbatim>\<open>setlink\<close>, \<^verbatim>\<open>defaultlink\<close>, \<^verbatim>\<open>interval\<close> and \<^verbatim>\<open>stats\<close>,
  whatever the text of the message is, and the whole state (active set, link
  overrides, group info, last-broadcast times, interval) is the one before the call.
\<close>

theorem unauthorized_command_denied:
  assumes "\<not> is_admin cfg (from_user_id m)" and "\<not> is_group_admin e m"
    and "h \<in> {SetLink, DefaultLink, SetInterval, ShowStats}"
  shows "handle cfg h e m st =
           (st, [Reply (chat_id m) AdminOnly],
            if send_message_ok e (chat_id m) AdminOnly then Returned else Raised)"
  using assms
  by (auto simp: set_link_def default_link_def set_interval_def show_stats_def reply_to_def)

text \<open>User 7 is no admin of any kind; a well-formed \<^verbatim>\<open>/setlink\<close> of theirs is denied.\<close>

theorem unauthorized_command_denied_witness:
  "\<not> is_admin sample_cfg (from_user_id (sample_msg 7 ''/setlink https://a.example'')) \<and>
   \<not> is_group_admin sample_env (sample_msg 7 ''/setlink https://a.example'') \<and>
   SetLink \<in> {SetLink, DefaultLink, SetInterval, ShowStats} \<and>
   handle sample_cfg SetLink sample_env (sample_msg 7 ''/setlink https://a.example'')
       (initial_state 86400) =
     (initial_state 86400, [Reply 5 AdminOnly], Returned)"
  using unauthorized_command_denied
          [of sample_cfg "sample_msg 7 ''/setlink https://a.example''" sample_env SetLink
              "initial_state 86400"]
  by (simp add: is_admin_def is_group_admin_def sample_cfg_def sample_env_def sample_msg_def)

section \<open>The periodic broadcaster\<close>

lemma get_link_cong: "GROUP_LINKS st' = GROUP_LINKS st \<Longrightarrow> get_link cfg st' = get_link cfg st"
  by (simp add: get_link_def fun_eq_iff)

lemma send_link_to_group_acts:
  "snd (send_link_to_group cfg e g st) = [Send g (link_message cfg e st g)]"
  by (simp add: send_link_to_group_def link_message_def Let_def)

lemma send_link_to_group_keeps:
  "GROUP_LINKS (fst (send_link_to_group cfg e g st)) = GROUP_LINKS st"
  "GROUP_INFO (fst (send_link_to_group cfg e g st)) = GROUP_INFO st"
  "MESSAGE_INTERVAL (fst (send_link_to_group cfg e g st)) = MESSAGE_INTERVAL st"
  by (simp_all add: send_link_to_group_def Let_def)

lemma send_link_to_group_active:
  "ACTIVE_GROUPS (fst (send_link_to_group cfg e g st)) =
     (if send_message_ok e g (link_message cfg e st g) then ACTIVE_GROUPS st
      else ACTIVE_GROUPS st - {g})"
  by (simp add: send_link_to_group_def link_message_def Let_def)

lemma broadcast_pass_keeps:
  "GROUP_LINKS (fst (broadcast_pass cfg e ids st)) = GROUP_LINKS st"
  "GROUP_INFO (fst (broadcast_pass cfg e ids st)) = GROUP_INFO st"
  "MESSAGE_INTERVAL (fst (broadcast_pass cfg e ids st)) = MESSAGE_INTERVAL st"
proof (induction ids arbitrary: st)
  case Nil
  { case 1 show ?case by simp }
  { case 2 show ?case by simp }
  { case 3 show ?case by simp }
next
  case (Cons g ids)
  { case 1 show ?case
      using Cons.IH(1) [of "fst (send_link_to_group cfg e g st)"]
      by (simp add: split_beta send_link_to_group_keeps) }
  { case 2 show ?case
      using Cons.IH(2) [of "fst (send_link_to_group cfg e g st)"]
      by (simp add: split_beta send_link_to_group_keeps) }
  { case 3 show ?case
      using Cons.IH(3) [of "fst (send_link_to_group cfg e g st)"]
      by (simp add: split_beta send_link_to_group_keeps) }
qed

lemma link_message_cong:
  "GROUP_LINKS st' = GROUP_LINKS st \<Longrightarrow> link_message cfg e st' = link_message cfg e st"
  by (simp add: link_message_def fun_eq_iff get_link_def)

lemma broadcast_pass_acts:
  "snd (broadcast_pass cfg e ids st) = map (\<lambda>g. Send g (link_message cfg e st g)) ids"
proof (induction ids arbitrary: st)
  case Nil
  show ?case by simp
next
  case (Cons g ids)
  have "link_message cfg e (fst (send_link_to_group cfg e g st)) = link_message cfg e st"
    by (rule link_message_cong) (simp add: send_link_to_group_keeps)
  then show ?case
    using Cons.IH [of "fst (send_link_to_group cfg e g st)"]
    by (simp add: split_beta send_link_to_group_acts)
qed

lemma broadcast_pass_active:
  "ACTIVE_GROUPS (fst (broadcast_pass cfg e ids st)) =
     ACTIVE_GROUPS st - {g \<in> set ids. \<not> send_message_ok e g (link_message cfg e st g)}"
proof (induction ids arbitrary: st)
  case Nil
  show ?case by simp
next
  case (Cons g ids)
  have "link_message cfg e (fst (send_link_to_group cfg e g st)) = link_message cfg e st"
    by (rule link_message_cong) (simp add: send_link_to_group_keeps)
  then show ?case
    using Cons.IH [of "fst (send_link_to_group cfg e g st)"]
    by (auto simp: split_beta send_link_to_group_active)
qed

lemma time_sleep_cases:
  "time_sleep iv =
     (if iv < 0 then Inl ValueError
      else if 9223372036 < iv then Inl OverflowError
      else Inr (Sleep iv))"
  by (simp add: time_sleep_def)

lemma loop_iteration_acts:
  "snd (loop_iteration cfg e st) =
     map (\<lambda>g. Send g (link_message cfg e st g)) (set_order e (ACTIVE_GROUPS st))
     @ [Sleep (sleep_length (MESSAGE_INTERVAL st))]"
  using broadcast_pass_acts [of cfg e "set_order e (ACTIVE_GROUPS st)" st]
        broadcast_pass_keeps(3) [of cfg e "set_order e (ACTIVE_GROUPS st)" st]
  by (simp add: loop_iteration_def split_beta time_sleep_cases sleep_length_def)

lemma loop_iteration_state:
  "fst (loop_iteration cfg e st) = fst (broadcast_pass cfg e (set_order e (ACTIVE_GROUPS st)) st)"
  by (simp add: loop_iteration_def split_beta split: sum.split)

lemma sleeps_of_append: "sleeps_of (xs @ ys) = sleeps_of xs @ sleeps_of ys"
  by (induction xs rule: sleeps_of.induct) simp_all

lemma sleeps_of_sends: "sleeps_of (map (\<lambda>g. Send g (f g)) ids) = []"
  by (induction ids) simp_all

lemma loop_iteration_sleeps:
  "sleeps_of (snd (loop_iteration cfg e st)) = [sleep_length (MESSAGE_INTERVAL st)]"
  by (simp add: loop_iteration_acts sleeps_of_append sleeps_of_sends)

lemma periodic_sleeps_length:
  "length (sleeps_of (snd (send_links_periodically cfg es st))) = length es"
proof (induction es arbitrary: st)
  case Nil
  show ?case by simp
next
  case (Cons e es)
  show ?case
    using Cons.IH [of "fst (loop_iteration cfg e st)"]
    by (simp add: split_beta sleeps_of_append loop_iteration_sleeps)
qed

lemma joined_state_eq:
  "joined_state =
     \<lparr>ACTIVE_GROUPS = {5}, GROUP_LINKS = Map.empty,
      GROUP_INFO = [(5, \<lparr>title = ''Group'', link = Some ''https://t.me/default''\<rparr>)],
      LAST_MESSAGE_TIMES = [5 \<mapsto> 1000], MESSAGE_INTERVAL = 86400\<rparr>"
  by (simp add: joined_state_def new_member_def bot_joined_def sample_msg_def sample_env_def
        sample_cfg_def initial_state_def send_welcome_and_link_def get_link_def after_def
        is_admin_def is_group_admin_def)

section \<open>Parsing and printing integers\<close>

lemma digit_cases:
  assumes "d < (10::nat)"
  obtains "d = 0" | "d = 1" | "d = 2" | "d = 3" | "d = 4" | "d = 5" | "d = 6" | "d = 7"
    | "d = 8" | "d = 9"
  using assms by atomize_elim presburger

lemma is_digit_digit_char:
  assumes "d < 10"
  shows "is_digit (digit_char d)"
  using assms
  by (cases d rule: digit_cases) (simp_all add: is_digit_def digit_char_def)

lemma digit_val_digit_char:
  assumes "d < 10"
  shows "digit_val (digit_char d) = d"
  using assms
  by (cases d rule: digit_cases) (simp_all add: digit_char_def digit_val_def)

lemma is_digit_not_space: "is_digit c \<Longrightarrow> \<not> is_int_space c"
  by (auto simp: is_digit_def is_int_space_def)

lemma is_digit_not_sign: "is_digit c \<Longrightarrow> c \<noteq> CHR ''-'' \<and> c \<noteq> CHR ''+''"
  by (auto simp: is_digit_def)

lemma str_nat_digits: "\<forall>c\<in>set (str_nat n). is_digit c"
proof (induction n rule: str_nat.induct)
  case (1 n)
  show ?case
  proof (cases "n < 10")
    case True
    then show ?thesis
      by (subst str_nat.simps) (simp add: is_digit_digit_char digit_val_digit_char)
  next
    case False
    with "1" show ?thesis
      by (subst str_nat.simps) (simp add: is_digit_digit_char digit_val_digit_char)
  qed
qed

lemma str_nat_not_Nil: "str_nat n \<noteq> []"
  by (subst str_nat.simps) simp

lemma parse_digits_str_nat:
  "parse_digits (str_nat n @ ys) acc = parse_digits ys (acc * 10 ^ length (str_nat n) + n)"
proof (induction n arbitrary: ys acc rule: str_nat.induct)
  case (1 n)
  show ?case
  proof (cases "n < 10")
    case True
    then have "str_nat n = [digit_char n]"
      by (subst str_nat.simps) simp
    with True show ?thesis
      by (simp add: is_digit_digit_char digit_val_digit_char)
  next
    case False
    then have s: "str_nat n = str_nat (n div 10) @ [digit_char (n mod 10)]"
      by (subst str_nat.simps) simp
    have d: "n mod 10 < 10" by simp
    have "parse_digits (str_nat n @ ys) acc =
            parse_digits (digit_char (n mod 10) # ys)
              (acc * 10 ^ length (str_nat (n div 10)) + n div 10)"
      using "1.IH" [OF False, of "digit_char (n mod 10) # ys" acc] by (simp add: s)
    also have "\<dots> = parse_digits ys
                        ((acc * 10 ^ length (str_nat (n div 10)) + n div 10) * 10 + n mod 10)"
      by (simp add: is_digit_digit_char [OF d] digit_val_digit_char [OF d])
    also have "(acc * 10 ^ length (str_nat (n div 10)) + n div 10) * 10 + n mod 10 =
                 acc * 10 ^ length (str_nat n) + n"
      by (simp add: s algebra_simps)
    finally show ?thesis .
  qed
qed

lemma parse_unsigned_str_nat: "parse_unsigned (str_nat n) = Some n"
proof -
  obtain c cs where s: "str_nat n = c # cs"
    using str_nat_not_Nil [of n] by (cases "str_nat n") auto
  then have "is_digit c"
    using str_nat_digits [of n] by simp
  moreover have "parse_digits (str_nat n) 0 = Some n"
    using parse_digits_str_nat [of n "[]" 0] by simp
  ultimately show ?thesis
    by (simp add: parse_unsigned_def s)
qed

lemma int_strip_no_space:
  assumes "\<forall>c\<in>set s. \<not> is_int_space c"
  shows "int_strip s = s"
proof -
  have drop: "dropWhile is_int_space t = t" if "\<forall>c\<in>set t. \<not> is_int_space c" for t
    using that by (cases t) simp_all
  have "\<forall>c\<in>set (rev s). \<not> is_int_space c"
    using assms by simp
  then have "dropWhile is_int_space (rev s) = rev s"
    by (rule drop)
  moreover have "dropWhile is_int_space s = s"
    using assms by (rule drop)
  ultimately show ?thesis
    by (simp add: int_strip_def)
qed

lemma py_int_py_str: "py_int (py_str h) = Some h"
proof (cases "h < 0")
  case True
  have "\<forall>c\<in>set (CHR ''-'' # str_nat (nat (- h))). \<not> is_int_space c"
    using str_nat_digits [of "nat (- h)"] by (simp add: is_digit_not_space) (simp add: is_int_space_def)
  then have "int_strip (py_str h) = CHR ''-'' # str_nat (nat (- h))"
    using True by (simp add: py_str_def int_strip_no_space)
  with True show ?thesis
    by (simp add: py_int_def parse_unsigned_str_nat)
next
  case False
  obtain c cs where s: "str_nat (nat h) = c # cs"
    using str_nat_not_Nil [of "nat h"] by (cases "str_nat (nat h)") auto
  then have c: "is_digit c"
    using str_nat_digits [of "nat h"] by simp
  have "\<forall>c\<in>set (str_nat (nat h)). \<not> is_int_space c"
    using str_nat_digits [of "nat h"] by (simp add: is_digit_not_space)
  then have "int_strip (py_str h) = c # cs"
    using False by (simp add: py_str_def int_strip_no_space s)
  moreover have "parse_unsigned (c # cs) = Some (nat h)"
    using parse_unsigned_str_nat [of "nat h"] by (simp add: s)
  ultimately show ?thesis
    using False c is_digit_not_sign [of c] by (simp add: py_int_def)
qed


section \<open>The interval command\<close>

lemma set_interval_accepts:
  assumes "is_admin cfg (from_user_id m) \<or> is_group_admin e m"
    and "py_split (msg_text m) = cmd # tok # rest"
    and "py_int tok = Some h"
  shows "set_interval cfg e m st =
           reply_to e m (IntervalSet h) (st\<lparr>MESSAGE_INTERVAL := h * 3600\<rparr>)"
  using assms by (auto simp: set_interval_def)



text \<open>
  Claim C9. An authorized \<^verbatim>\<open>/interval\<close> whose argument is the decimal form of an
  integer \<open>h\<close>, or any other token that \<^verbatim>\<open>int\<close> reads as \<open>h\<close>, is accepted for every
  \<open>h\<close>, zero and negative ones included: the interval becomes \<open>h * 3600\<close> seconds, the
  rest of the state is kept, and the reply is the success message. No bound on \<open>h\<close>
  is checked.
\<close>

theorem interval_accepts_every_integer:
  assumes "is_admin cfg (from_user_id m) \<or> is_group_admin e m"
    and "py_split (msg_text m) = cmd # tok # rest"
    and "tok = py_str h \<or> py_int tok = Some h"
  shows "set_interval cfg e m st =
           (st\<lparr>MESSAGE_INTERVAL := h * 3600\<rparr>, [Reply (chat_id m) (IntervalSet h)],
            if send_message_ok e (chat_id m) (IntervalSet h) then Returned else Raised)"
proof -
  from assms(3) have "py_int tok = Some h"
    by (auto simp: py_int_py_str)
  with assms(1,2) show ?thesis
    by (simp add: set_interval_accepts reply_to_def)
qed

lemma py_split_interval_neg: "py_split ''/interval -1'' = [''/interval'', ''-1'']"
  by (simp add: py_split.simps is_space_def)

lemma py_str_neg1: "py_str (- 1) = ''-1''"
  by (simp add: py_str_def str_nat.simps digit_char_def)


text \<open>
  The process-wide admin sends \<^verbatim>\<open>/interval -1\<close>; the interval becomes \<open>-3600\<close>.
\<close>

theorem interval_accepts_every_integer_witness:
  "(is_admin sample_cfg (from_user_id (sample_msg 1 ''/interval -1'')) \<or>
    is_group_admin sample_env (sample_msg 1 ''/interval -1'')) \<and>
   py_split (msg_text (sample_msg 1 ''/interval -1'')) = ''/interval'' # py_str (- 1) # [] \<and>
   set_interval sample_cfg sample_env (sample_msg 1 ''/interval -1'') joined_state =
     (joined_state\<lparr>MESSAGE_INTERVAL := - 3600\<rparr>, [Reply 5 (IntervalSet (- 1))], Returned)"
  using interval_accepts_every_integer
          [of sample_cfg "sample_msg 1 ''/interval -1''" sample_env "''/interval''"
              "py_str (- 1)" "[]" "- 1" joined_state]
  by (simp add: py_str_neg1 py_split_interval_neg is_admin_def sample_cfg_def sample_msg_def
        sample_env_def)






text \<open>
  Claim C5. Let the copy of the active set that a pass iterates be \<open>pre @ G # post\<close>
  and let the send to \<open>G\<close> fail. Then the pass attempts a send to every id of the
  copy, those of \<open>post\<close> after the one to \<open>G\<close>; \<open>G\<close> is not in the active set when
  the pass ends; and the next pass, whose copy holds only active ids, attempts no
  send to \<open>G\<close>.
\<close>

theorem failed_send_deactivates_group:
  assumes "set_order e (ACTIVE_GROUPS st) = pre @ G # post"
    and "\<not> send_message_ok e G (link_message cfg e st G)"
    and "set (set_order e2 (ACTIVE_GROUPS (fst (loop_iteration cfg e st))))
           \<subseteq> ACTIVE_GROUPS (fst (loop_iteration cfg e st))"
  shows "snd (loop_iteration cfg e st) =
           map (\<lambda>g. Send g (link_message cfg e st g)) pre
           @ Send G (link_message cfg e st G)
           # map (\<lambda>g. Send g (link_message cfg e st g)) post
           @ [Sleep (sleep_length (MESSAGE_INTERVAL st))]
         \<and> G \<notin> ACTIVE_GROUPS (fst (loop_iteration cfg e st))
         \<and> (\<forall>t. Send G t \<notin> set (snd (loop_iteration cfg e2 (fst (loop_iteration cfg e st)))))"
proof -
  let ?st1 = "fst (loop_iteration cfg e st)"
  have acts: "snd (loop_iteration cfg e st) =
           map (\<lambda>g. Send g (link_message cfg e st g)) pre
           @ Send G (link_message cfg e st G)
           # map (\<lambda>g. Send g (link_message cfg e st g)) post
           @ [Sleep (sleep_length (MESSAGE_INTERVAL st))]"
    by (simp add: loop_iteration_acts assms(1))
  have "G \<in> set (set_order e (ACTIVE_GROUPS st))"
    by (simp add: assms(1))
  then have out: "G \<notin> ACTIVE_GROUPS ?st1"
    using assms(2) by (simp add: loop_iteration_state broadcast_pass_active)
  then have "G \<notin> set (set_order e2 (ACTIVE_GROUPS ?st1))"
    using assms(3) by blast
  then have "\<forall>t. Send G t \<notin> set (snd (loop_iteration cfg e2 ?st1))"
    by (auto simp: loop_iteration_acts)
  with acts out show ?thesis
    by simp
qed

lemma three_groups_eq:
  "three_groups =
     \<lparr>ACTIVE_GROUPS = {3, 5, 8}, GROUP_LINKS = Map.empty,
      GROUP_INFO = [(5, \<lparr>title = ''Group'', link = Some ''https://t.me/default''\<rparr>)],
      LAST_MESSAGE_TIMES = [5 \<mapsto> 1000], MESSAGE_INTERVAL = 86400\<rparr>"
  by (simp add: three_groups_def joined_state_eq)

lemma three_groups_pass:
  "fst (loop_iteration sample_cfg (failing_env 5) three_groups) =
     \<lparr>ACTIVE_GROUPS = {3, 8}, GROUP_LINKS = Map.empty,
      GROUP_INFO = [(5, \<lparr>title = ''Group'', link = Some ''https://t.me/default''\<rparr>)],
      LAST_MESSAGE_TIMES = [5 \<mapsto> 1000, 3 \<mapsto> 1000, 8 \<mapsto> 1000], MESSAGE_INTERVAL = 86400\<rparr>"
  by (simp add: three_groups_eq loop_iteration_def failing_env_def sample_env_def
        send_link_to_group_def time_sleep_def insert_Diff_if)

text \<open>
  Chats 3, 5 and 8 are active and the sends to chat 5 fail.
\<close>

theorem failed_send_deactivates_group_witness:
  "set_order (failing_env 5) (ACTIVE_GROUPS three_groups) = [3] @ 5 # [8] \<and>
   \<not> send_message_ok (failing_env 5) 5 (link_message sample_cfg (failing_env 5) three_groups 5) \<and>
   snd (loop_iteration sample_cfg (failing_env 5) three_groups) =
     [Send 3 (GroupLink (Some ''https://t.me/default'') 1000),
      Send 5 (GroupLink (Some ''https://t.me/default'') 1000),
      Send 8 (GroupLink (Some ''https://t.me/default'') 1000), Sleep 86400] \<and>
   ACTIVE_GROUPS (fst (loop_iteration sample_cfg (failing_env 5) three_groups)) = {3, 8} \<and>
   (\<forall>t. Send 5 t \<notin> set (snd (loop_iteration sample_cfg sample_env
            (fst (loop_iteration sample_cfg (failing_env 5) three_groups)))))"
proof -
  have order: "set_order (failing_env 5) (ACTIVE_GROUPS three_groups) = [3] @ 5 # [8]"
    by (simp add: three_groups_eq failing_env_def sample_env_def)
  have fail: "\<not> send_message_ok (failing_env 5) 5
                  (link_message sample_cfg (failing_env 5) three_groups 5)"
    by (simp add: failing_env_def)
  have next_copy:
    "set (set_order sample_env
            (ACTIVE_GROUPS (fst (loop_iteration sample_cfg (failing_env 5) three_groups))))
       \<subseteq> ACTIVE_GROUPS (fst (loop_iteration sample_cfg (failing_env 5) three_groups))"
    by (simp add: three_groups_pass sample_env_def)
  have msg: "link_message sample_cfg (failing_env 5) three_groups =
               (\<lambda>g. GroupLink (Some ''https://t.me/default'') 1000)"
    by (simp add: link_message_def fun_eq_iff get_link_def three_groups_eq sample_cfg_def
          failing_env_def sample_env_def)
  show ?thesis
    using failed_send_deactivates_group [OF order fail next_copy] order fail
    by (simp add: msg three_groups_pass) (simp add: three_groups_eq sleep_length_def)
qed

section \<open>Setting and resetting the link\<close>

lemma set_link_rejects:
  assumes "is_admin cfg (from_user_id m) \<or> is_group_admin e m"
    and "length (py_split (msg_text m)) < 2 \<or> \<not> valid_url (py_split (msg_text m) ! 1)"
  shows "set_link cfg e m st = reply_to e m UsageSetlink st"
proof (cases "py_split (msg_text m)")
  case Nil
  with assms(1) show ?thesis by (simp add: set_link_def)
next
  case (Cons c ts)
  show ?thesis
  proof (cases ts)
    case Nil
    with Cons assms(1) show ?thesis by (simp add: set_link_def)
  next
    case (Cons u rest)
    with \<open>py_split (msg_text m) = c # ts\<close> assms show ?thesis
      by (simp add: set_link_def)
  qed
qed

lemma map_entry_absent: "k \<notin> fst ` set al \<Longrightarrow> AList.map_entry k f al = al"
  by (induction al) auto

lemma set_link_accepts:
  assumes "is_admin cfg (from_user_id m) \<or> is_group_admin e m"
    and "py_split (msg_text m) = cmd # u # rest"
    and "valid_url u"
  shows "set_link cfg e m st =
           reply_to e m (LinkUpdated u)
             (st\<lparr>GROUP_LINKS := (GROUP_LINKS st)(chat_id m \<mapsto> u),
                 GROUP_INFO := AList.map_entry (chat_id m) (\<lambda>i. i\<lparr>link := Some u\<rparr>)
                                 (GROUP_INFO st)\<rparr>)"
proof (cases "chat_id m \<in> fst ` set (GROUP_INFO st)")
  case True
  with assms show ?thesis
    by (simp add: set_link_def)
next
  case False
  with assms show ?thesis
    by (simp add: set_link_def map_entry_absent)
qed


lemma default_link_accepts:
  assumes "is_admin cfg (from_user_id m) \<or> is_group_admin e m"
  shows "default_link cfg e m st =
           reply_to e m (ResetToDefault (DEFAULT_LINK cfg))
             (st\<lparr>GROUP_LINKS := (GROUP_LINKS st)(chat_id m := None),
                 GROUP_INFO := AList.map_entry (chat_id m) (\<lambda>i. i\<lparr>link := DEFAULT_LINK cfg\<rparr>)
                                 (GROUP_INFO st)\<rparr>)"
proof -
  have "(GROUP_LINKS st)(chat_id m := None) = GROUP_LINKS st" if "chat_id m \<notin> dom (GROUP_LINKS st)"
    using that by (auto simp: fun_eq_iff)
  then show ?thesis
    using assms by (auto simp: default_link_def map_entry_absent Let_def)
qed

lemma py_split_command:
  assumes "startswith s ''/''"
  shows "py_split s =
           takeWhile (\<lambda>x. \<not> is_space x) s # py_split (dropWhile (\<lambda>x. \<not> is_space x) s)"
proof -
  from assms obtain cs where s: "s = CHR ''/'' # cs"
    by (cases s) (simp_all add: startswith_def)
  have "\<not> is_space CHR ''/''"
    by (simp add: is_space_def)
  then have "dropWhile is_space s = CHR ''/'' # cs"
    by (simp add: s)
  then show ?thesis
    by (subst py_split.simps) (simp add: s)
qed

text \<open>
  Claim C3. The text of a command starts with \<^verbatim>\<open>/\<close>, so its first token is the command
  and \<open>args\<close> are the whitespace-delimited tokens after it. For an authorized caller,
  when there is no argument or the first argument does not start with \<^verbatim>\<open>http://\<close> or
  \<^verbatim>\<open>https://\<close>, \<^verbatim>\<open>set_link\<close> replies with the usage text and returns the state it was
  given, so the link of the chat is the same before and after. Otherwise exactly the
  first argument becomes the override of the chat, whatever follows it.
\<close>

theorem setlink_checks_first_argument:
  assumes "is_admin cfg (from_user_id m) \<or> is_group_admin e m"
    and "startswith (msg_text m) ''/''"
    and "args = py_split (dropWhile (\<lambda>x. \<not> is_space x) (msg_text m))"
  shows "(args = [] \<or> \<not> valid_url (hd args) \<longrightarrow>
            set_link cfg e m st =
              (st, [Reply (chat_id m) UsageSetlink],
               if send_message_ok e (chat_id m) UsageSetlink then Returned else Raised) \<and>
            get_link cfg (fst (set_link cfg e m st)) (chat_id m) = get_link cfg st (chat_id m))
       \<and> (args \<noteq> [] \<and> valid_url (hd args) \<longrightarrow>
            GROUP_LINKS (fst (set_link cfg e m st)) = (GROUP_LINKS st)(chat_id m \<mapsto> hd args) \<and>
            fst (snd (set_link cfg e m st)) = [Reply (chat_id m) (LinkUpdated (hd args))])"
proof -
  have split: "py_split (msg_text m) = takeWhile (\<lambda>x. \<not> is_space x) (msg_text m) # args"
    using assms(2,3) by (simp add: py_split_command)
  have "set_link cfg e m st = reply_to e m UsageSetlink st"
    if "args = [] \<or> \<not> valid_url (hd args)"
  proof (rule set_link_rejects [OF assms(1)])
    show "length (py_split (msg_text m)) < 2 \<or> \<not> valid_url (py_split (msg_text m) ! 1)"
      using that by (cases args) (simp_all add: split)
  qed
  moreover have "set_link cfg e m st =
           reply_to e m (LinkUpdated (hd args))
             (st\<lparr>GROUP_LINKS := (GROUP_LINKS st)(chat_id m \<mapsto> hd args),
                 GROUP_INFO := AList.map_entry (chat_id m) (\<lambda>i. i\<lparr>link := Some (hd args)\<rparr>)
                                 (GROUP_INFO st)\<rparr>)"
    if "args \<noteq> []" and "valid_url (hd args)"
  proof -
    from that(1) obtain u rest where "args = u # rest"
      by (cases args) auto
    with split that(2) show ?thesis
      using set_link_accepts [OF assms(1), of "takeWhile (\<lambda>x. \<not> is_space x) (msg_text m)" u rest st]
      by simp
  qed
  ultimately show ?thesis
    by (simp add: reply_to_def)
qed

lemma valid_url_examples:
  "valid_url ''https://a.example''" "\<not> valid_url ''ftp://a.example''"
  by (simp_all add: valid_url_def startswith_def)

text \<open>
  The admin sends \<^verbatim>\<open>/setlink ftp://a.example https://b\<close>, which is rejected although a
  later token is a URL, and \<^verbatim>\<open>/setlink https://a.example x\<close>, which stores the first
  argument.
\<close>

theorem setlink_checks_first_argument_witness:
  "(is_admin sample_cfg (from_user_id (sample_msg 1 ''/setlink ftp://a.example https://b'')) \<or>
    is_group_admin sample_env (sample_msg 1 ''/setlink ftp://a.example https://b'')) \<and>
   startswith (msg_text (sample_msg 1 ''/setlink ftp://a.example https://b'')) ''/'' \<and>
   [''ftp://a.example'', ''https://b''] =
     py_split (dropWhile (\<lambda>x. \<not> is_space x)
       (msg_text (sample_msg 1 ''/setlink ftp://a.example https://b''))) \<and>
   \<not> valid_url (hd [''ftp://a.example'', ''https://b'']) \<and>
   set_link sample_cfg sample_env (sample_msg 1 ''/setlink ftp://a.example https://b'')
       joined_state =
     (joined_state, [Reply 5 UsageSetlink], Returned) \<and>
   (is_admin sample_cfg (from_user_id (sample_msg 1 ''/setlink https://a.example x'')) \<or>
    is_group_admin sample_env (sample_msg 1 ''/setlink https://a.example x'')) \<and>
   startswith (msg_text (sample_msg 1 ''/setlink https://a.example x'')) ''/'' \<and>
   [''https://a.example'', ''x''] =
     py_split (dropWhile (\<lambda>x. \<not> is_space x)
       (msg_text (sample_msg 1 ''/setlink https://a.example x''))) \<and>
   valid_url (hd [''https://a.example'', ''x'']) \<and>
   GROUP_LINKS (fst (set_link sample_cfg sample_env
       (sample_msg 1 ''/setlink https://a.example x'') joined_state)) =
     (GROUP_LINKS joined_state)(5 \<mapsto> ''https://a.example'')"
proof -
  have auth: "is_admin sample_cfg (from_user_id (sample_msg 1 t)) \<or>
              is_group_admin sample_env (sample_msg 1 t)" for t
    by (simp add: is_admin_def sample_cfg_def sample_msg_def)
  have cmd1: "startswith (msg_text (sample_msg 1 ''/setlink ftp://a.example https://b'')) ''/''"
    and cmd2: "startswith (msg_text (sample_msg 1 ''/setlink https://a.example x'')) ''/''"
    by (simp_all add: startswith_def sample_msg_def)
  have args1: "py_split (dropWhile (\<lambda>x. \<not> is_space x)
       (msg_text (sample_msg 1 ''/setlink ftp://a.example https://b''))) =
     [''ftp://a.example'', ''https://b'']"
    by (simp add: sample_msg_def py_split.simps is_space_def)
  have args2: "py_split (dropWhile (\<lambda>x. \<not> is_space x)
       (msg_text (sample_msg 1 ''/setlink https://a.example x''))) =
     [''https://a.example'', ''x'']"
    by (simp add: sample_msg_def py_split.simps is_space_def)
  have ok: "send_message_ok sample_env c t" for c t
    by (simp add: sample_env_def)
  have cid: "chat_id (sample_msg 1 t) = 5" for t
    by (simp add: sample_msg_def)
  show ?thesis
    using setlink_checks_first_argument [OF auth cmd1 args1 [symmetric], of joined_state]
          setlink_checks_first_argument [OF auth cmd2 args2 [symmetric], of joined_state]
          auth cmd1 cmd2 args1 args2
    by (simp add: valid_url_examples ok cid)
qed

text \<open>
  Claim C6. After an authorized \<^verbatim>\<open>setlink\<close> with a valid URL the link of the chat is
  that URL; after an authorized \<^verbatim>\<open>defaultlink\<close> in the same chat it is \<^verbatim>\<open>DEFAULT_LINK\<close>
  again, which is the link of a chat in the initial state, where no override was set.
\<close>

theorem defaultlink_restores_default:
  assumes "is_admin cfg (from_user_id m1) \<or> is_group_admin e1 m1"
    and "py_split (msg_text m1) = cmd # u # rest"
    and "valid_url u"
    and "is_admin cfg (from_user_id m2) \<or> is_group_admin e2 m2"
    and "chat_id m2 = chat_id m1"
  shows "get_link cfg (fst (set_link cfg e1 m1 st)) (chat_id m1) = Some u \<and>
         get_link cfg (fst (default_link cfg e2 m2 (fst (set_link cfg e1 m1 st)))) (chat_id m1) =
           DEFAULT_LINK cfg \<and>
         get_link cfg (initial_state iv) (chat_id m1) = DEFAULT_LINK cfg"
  using assms
  by (simp add: set_link_accepts default_link_accepts reply_to_def get_link_def
        initial_state_def)

lemma py_split_setlink: "py_split ''/setlink https://a.example'' = [''/setlink'', ''https://a.example'']"
  by (simp add: py_split.simps is_space_def)

text \<open>
  The process-wide admin sets a link in chat 5 and the chat-level admin resets it.
\<close>

theorem defaultlink_restores_default_witness:
  "(is_admin sample_cfg (from_user_id (sample_msg 1 ''/setlink https://a.example'')) \<or>
    is_group_admin sample_env (sample_msg 1 ''/setlink https://a.example'')) \<and>
   py_split (msg_text (sample_msg 1 ''/setlink https://a.example'')) =
     [''/setlink'', ''https://a.example''] \<and>
   valid_url ''https://a.example'' \<and>
   (is_admin sample_cfg (from_user_id (sample_msg 2 ''/defaultlink'')) \<or>
    is_group_admin sample_env (sample_msg 2 ''/defaultlink'')) \<and>
   chat_id (sample_msg 2 ''/defaultlink'') = chat_id (sample_msg 1 ''/setlink https://a.example'') \<and>
   get_link sample_cfg
     (fst (set_link sample_cfg sample_env (sample_msg 1 ''/setlink https://a.example'')
        joined_state)) 5 = Some ''https://a.example'' \<and>
   get_link sample_cfg
     (fst (default_link sample_cfg sample_env (sample_msg 2 ''/defaultlink'')
        (fst (set_link sample_cfg sample_env (sample_msg 1 ''/setlink https://a.example'')
           joined_state)))) 5 = Some ''https://t.me/default''"
proof -
  have auth1: "is_admin sample_cfg (from_user_id (sample_msg 1 ''/setlink https://a.example'')) \<or>
    is_group_admin sample_env (sample_msg 1 ''/setlink https://a.example'')"
    by (simp add: is_admin_def sample_cfg_def sample_msg_def)
  have auth2: "is_admin sample_cfg (from_user_id (sample_msg 2 ''/defaultlink'')) \<or>
    is_group_admin sample_env (sample_msg 2 ''/defaultlink'')"
    by (simp add: is_group_admin_def sample_env_def sample_msg_def)
  have split: "py_split (msg_text (sample_msg 1 ''/setlink https://a.example'')) =
     [''/setlink'', ''https://a.example'']"
    by (simp add: sample_msg_def py_split_setlink)
  have cid: "chat_id (sample_msg 2 ''/defaultlink'') =
               chat_id (sample_msg 1 ''/setlink https://a.example'')"
    by (simp add: sample_msg_def)
  have five: "chat_id (sample_msg 1 ''/setlink https://a.example'') = 5"
    by (simp add: sample_msg_def)
  show ?thesis
    using defaultlink_restores_default
            [OF auth1 split valid_url_examples(1) auth2 cid, of joined_state]
          auth1 auth2 split cid
    by (simp add: five valid_url_examples sample_cfg_def)
qed

section \<open>Invariants of the reachable states\<close>

lemma fst_after: "fst (after acts r) = fst r"
  by (simp add: after_def split_beta)

lemma send_welcome_keeps:
  "GROUP_LINKS (fst (send_welcome_and_link cfg e cid st)) = GROUP_LINKS st"
  "ACTIVE_GROUPS (fst (send_welcome_and_link cfg e cid st)) = ACTIVE_GROUPS st"
  "MESSAGE_INTERVAL (fst (send_welcome_and_link cfg e cid st)) = MESSAGE_INTERVAL st"
  by (simp_all add: send_welcome_and_link_def Let_def split: option.split)

lemma send_welcome_info:
  "GROUP_INFO (fst (send_welcome_and_link cfg e cid st)) =
     (case get_chat e cid of
        None \<Rightarrow> GROUP_INFO st
      | Some ttl \<Rightarrow>
          AList.update cid \<lparr>title = ttl, link = get_link cfg st cid\<rparr> (GROUP_INFO st))"
  by (simp add: send_welcome_and_link_def Let_def split: option.split)

lemma send_welcome_distinct:
  "distinct (map fst (GROUP_INFO st)) \<Longrightarrow>
   distinct (map fst (GROUP_INFO (fst (send_welcome_and_link cfg e cid st))))"
  by (simp add: send_welcome_info distinct_update split: option.split)

lemma new_member_first_loop_links:
  "GROUP_LINKS (fst (new_member_first_loop cfg e m ms st)) = GROUP_LINKS st"
proof (induction ms arbitrary: st)
  case Nil
  show ?case by simp
next
  case (Cons a ms)
  show ?case
    by (simp add: split_beta fst_after Cons.IH send_welcome_keeps split: option.split)
qed

lemma new_member_loop_links:
  "GROUP_LINKS (fst (new_member_loop cfg e m ms st)) = GROUP_LINKS st"
proof (induction ms arbitrary: st)
  case Nil
  show ?case by simp
next
  case (Cons a ms)
  show ?case
    by (simp add: split_beta fst_after Cons.IH send_welcome_keeps split: option.split)
qed

lemma new_member_first_loop_distinct:
  "distinct (map fst (GROUP_INFO st)) \<Longrightarrow>
   distinct (map fst (GROUP_INFO (fst (new_member_first_loop cfg e m ms st))))"
proof (induction ms arbitrary: st)
  case Nil
  then show ?case by simp
next
  case (Cons a ms)
  have "distinct (map fst (GROUP_INFO (fst (send_welcome_and_link cfg e (chat_id m)
          (st\<lparr>ACTIVE_GROUPS := insert (chat_id m) (ACTIVE_GROUPS st)\<rparr>)))))"
    using Cons.prems by (simp add: send_welcome_distinct)
  with Cons show ?case
    by (simp add: split_beta fst_after split: option.split)
qed

lemma new_member_loop_distinct:
  "distinct (map fst (GROUP_INFO st)) \<Longrightarrow>
   distinct (map fst (GROUP_INFO (fst (new_member_loop cfg e m ms st))))"
proof (induction ms arbitrary: st)
  case Nil
  then show ?case by simp
next
  case (Cons a ms)
  have "distinct (map fst (GROUP_INFO (fst (send_welcome_and_link cfg e (chat_id m)
          (st\<lparr>ACTIVE_GROUPS := insert (chat_id m) (ACTIVE_GROUPS st)\<rparr>)))))"
    using Cons.prems by (simp add: send_welcome_distinct)
  with Cons show ?case
    by (simp add: split_beta fst_after split: option.split)
qed

lemma set_link_links:
  assumes "GROUP_LINKS (fst (set_link cfg e m st)) c = Some l"
  shows "GROUP_LINKS st c = Some l \<or> valid_url l"
proof (cases "is_admin cfg (from_user_id m) \<or> is_group_admin e m")
  case False
  with assms show ?thesis
    by (simp add: set_link_def reply_to_def)
next
  case auth: True
  show ?thesis
  proof (cases "length (py_split (msg_text m)) < 2 \<or> \<not> valid_url (py_split (msg_text m) ! 1)")
    case True
    with assms show ?thesis
      by (simp add: set_link_rejects [OF auth] reply_to_def)
  next
    case False
    then obtain cmd u rest where split: "py_split (msg_text m) = cmd # u # rest"
      by (cases "py_split (msg_text m)"; cases "tl (py_split (msg_text m))") auto
    with False have "valid_url u" by simp
    with assms show ?thesis
      by (simp add: set_link_accepts [OF auth split] reply_to_def split: if_splits)
  qed
qed

lemma set_link_distinct:
  assumes "distinct (map fst (GROUP_INFO st))"
  shows "distinct (map fst (GROUP_INFO (fst (set_link cfg e m st))))"
proof (cases "is_admin cfg (from_user_id m) \<or> is_group_admin e m")
  case False
  with assms show ?thesis
    by (simp add: set_link_def reply_to_def)
next
  case auth: True
  show ?thesis
  proof (cases "length (py_split (msg_text m)) < 2 \<or> \<not> valid_url (py_split (msg_text m) ! 1)")
    case True
    with assms show ?thesis
      by (simp add: set_link_rejects [OF auth] reply_to_def)
  next
    case False
    then obtain cmd u rest where split: "py_split (msg_text m) = cmd # u # rest"
      by (cases "py_split (msg_text m)"; cases "tl (py_split (msg_text m))") auto
    with False have "valid_url u" by simp
    with assms show ?thesis
      by (simp add: set_link_accepts [OF auth split] reply_to_def distinct_map_entry)
  qed
qed

lemma default_link_links:
  "GROUP_LINKS (fst (default_link cfg e m st)) c = Some l \<Longrightarrow> GROUP_LINKS st c = Some l"
  by (cases "is_admin cfg (from_user_id m) \<or> is_group_admin e m")
     (simp_all add: default_link_accepts, simp_all add: default_link_def reply_to_def split: if_splits)

lemma default_link_distinct:
  "distinct (map fst (GROUP_INFO st)) \<Longrightarrow>
   distinct (map fst (GROUP_INFO (fst (default_link cfg e m st))))"
  by (cases "is_admin cfg (from_user_id m) \<or> is_group_admin e m")
     (simp_all add: default_link_accepts, simp_all add: default_link_def reply_to_def distinct_map_entry)

lemma set_interval_keeps:
  "GROUP_LINKS (fst (set_interval cfg e m st)) = GROUP_LINKS st"
  "GROUP_INFO (fst (set_interval cfg e m st)) = GROUP_INFO st"
  by (simp_all add: set_interval_def reply_to_def split: list.split option.split)

lemma left_member_keeps: "GROUP_LINKS (fst (left_member cfg e m st)) = GROUP_LINKS st"
  by (simp add: left_member_def Let_def split: option.split)

lemma left_member_distinct:
  "distinct (map fst (GROUP_INFO st)) \<Longrightarrow>
   distinct (map fst (GROUP_INFO (fst (left_member cfg e m st))))"
  by (simp add: left_member_def Let_def distinct_delete split: option.split)

lemma start_command_keeps: "GROUP_LINKS (fst (start_command cfg e m st)) = GROUP_LINKS st"
  by (simp add: start_command_def Let_def split_beta send_welcome_keeps)

lemma start_command_distinct:
  "distinct (map fst (GROUP_INFO st)) \<Longrightarrow>
   distinct (map fst (GROUP_INFO (fst (start_command cfg e m st))))"
  by (simp add: start_command_def Let_def split_beta send_welcome_distinct)

lemma reply_only_handlers:
  "fst (send_help_first cfg e m st) = st"
  "fst (send_help cfg e m st) = st"
  "fst (show_user_id cfg e m st) = st"
  "fst (show_link cfg e m st) = st"
  "fst (show_stats cfg e m st) = st"
  by (simp_all add: send_help_first_def send_help_def show_user_id_def show_link_def
        show_stats_def reply_to_def split: sum.split)

lemma new_member_keeps:
  "GROUP_LINKS (fst (new_member_first cfg e m st)) = GROUP_LINKS st"
  "GROUP_LINKS (fst (new_member cfg e m st)) = GROUP_LINKS st"
  by (simp_all add: new_member_first_def new_member_def new_member_first_loop_links
        new_member_loop_links)

lemma new_member_distinct:
  assumes "distinct (map fst (GROUP_INFO st))"
  shows "distinct (map fst (GROUP_INFO (fst (new_member_first cfg e m st))))"
    and "distinct (map fst (GROUP_INFO (fst (new_member cfg e m st))))"
  using assms
  by (simp_all add: new_member_first_def new_member_def new_member_first_loop_distinct
        new_member_loop_distinct)

lemma handle_links:
  assumes "GROUP_LINKS (fst (handle cfg h e m st)) c = Some l"
  shows "GROUP_LINKS st c = Some l \<or> valid_url l"
proof (cases h)
  case SetLink
  with assms show ?thesis using set_link_links [of cfg e m st c l] by simp
next
  case DefaultLink
  with assms show ?thesis using default_link_links [of cfg e m st c l] by simp
next
  case SendHelpFirst
  with assms show ?thesis by (simp add: reply_only_handlers)
next
  case SendHelp
  with assms show ?thesis by (simp add: reply_only_handlers)
next
  case ShowUserId
  with assms show ?thesis by (simp add: reply_only_handlers)
next
  case ShowLink
  with assms show ?thesis by (simp add: reply_only_handlers)
next
  case ShowStats
  with assms show ?thesis by (simp add: reply_only_handlers)
next
  case SetInterval
  with assms show ?thesis by (simp add: set_interval_keeps)
next
  case NewMemberFirst
  with assms show ?thesis by (simp add: new_member_keeps)
next
  case NewMember
  with assms show ?thesis by (simp add: new_member_keeps)
next
  case LeftMember
  with assms show ?thesis by (simp add: left_member_keeps)
next
  case StartCommand
  with assms show ?thesis by (simp add: start_command_keeps)
qed

lemma handle_distinct:
  assumes "distinct (map fst (GROUP_INFO st))"
  shows "distinct (map fst (GROUP_INFO (fst (handle cfg h e m st))))"
proof (cases h)
  case SetLink
  with assms show ?thesis by (simp add: set_link_distinct)
next
  case DefaultLink
  with assms show ?thesis by (simp add: default_link_distinct)
next
  case SendHelpFirst
  with assms show ?thesis by (simp add: reply_only_handlers)
next
  case SendHelp
  with assms show ?thesis by (simp add: reply_only_handlers)
next
  case ShowUserId
  with assms show ?thesis by (simp add: reply_only_handlers)
next
  case ShowLink
  with assms show ?thesis by (simp add: reply_only_handlers)
next
  case ShowStats
  with assms show ?thesis by (simp add: reply_only_handlers)
next
  case SetInterval
  with assms show ?thesis by (simp add: set_interval_keeps)
next
  case NewMemberFirst
  with assms show ?thesis by (simp add: new_member_distinct)
next
  case NewMember
  with assms show ?thesis by (simp add: new_member_distinct)
next
  case LeftMember
  with assms show ?thesis by (simp add: left_member_distinct)
next
  case StartCommand
  with assms show ?thesis by (simp add: start_command_distinct)
qed

lemma step_links:
  assumes "GROUP_LINKS (step cfg ev st) c = Some l"
  shows "GROUP_LINKS st c = Some l \<or> valid_url l"
proof (cases ev)
  case (Inbound h e m)
  with assms show ?thesis using handle_links [of cfg h e m st c l] by simp
next
  case (Iteration e)
  with assms show ?thesis by (simp add: loop_iteration_state broadcast_pass_keeps)
qed

lemma step_distinct:
  assumes "distinct (map fst (GROUP_INFO st))"
  shows "distinct (map fst (GROUP_INFO (step cfg ev st)))"
proof (cases ev)
  case (Inbound h e m)
  with assms show ?thesis by (simp add: handle_distinct)
next
  case (Iteration e)
  with assms show ?thesis by (simp add: loop_iteration_state broadcast_pass_keeps)
qed

lemma reachable_links: "reachable cfg st \<Longrightarrow> GROUP_LINKS st c = Some l \<Longrightarrow> valid_url l"
proof (induction arbitrary: c l rule: reachable.induct)
  case (start iv)
  then show ?case by (simp add: initial_state_def)
next
  case (event st ev)
  then show ?case using step_links by blast
qed

lemma reachable_distinct: "reachable cfg st \<Longrightarrow> distinct (map fst (GROUP_INFO st))"
proof (induction rule: reachable.induct)
  case (start iv)
  show ?case by (simp add: initial_state_def)
next
  case (event st ev)
  then show ?case by (simp add: step_distinct)
qed

lemma valid_url_not_Nil: "valid_url l \<Longrightarrow> l \<noteq> []"
  by (auto simp: valid_url_def startswith_def)


lemma set_link_unauthorized:
  "\<not> (is_admin cfg (from_user_id m) \<or> is_group_admin e m) \<Longrightarrow>
   set_link cfg e m st = reply_to e m AdminOnly st"
  by (simp add: set_link_def)

text \<open>
  Claim C7, as amended. In every reachable state each stored override is a non-empty
  string that starts with \<^verbatim>\<open>http://\<close> or \<^verbatim>\<open>https://\<close>. The link of a chat, override or
  default, is such a string whenever the configured \<^verbatim>\<open>DEFAULT_LINK\<close> is one; the default
  itself is taken from the environment as it is. A \<^verbatim>\<open>setlink\<close> whose argument is
  missing or fails the check leaves the state as it was.
\<close>

theorem stored_links_are_urls:
  assumes "reachable cfg st"
  shows "(\<forall>cid l. GROUP_LINKS st cid = Some l \<longrightarrow> valid_url l \<and> l \<noteq> [])
       \<and> ((\<exists>d. DEFAULT_LINK cfg = Some d \<and> valid_url d) \<longrightarrow>
            (\<forall>cid. \<exists>l. get_link cfg st cid = Some l \<and> valid_url l \<and> l \<noteq> []))
       \<and> (\<forall>e m. length (py_split (msg_text m)) < 2 \<or> \<not> valid_url (py_split (msg_text m) ! 1)
              \<longrightarrow> fst (set_link cfg e m st) = st)"
proof -
  have stored: "valid_url l \<and> l \<noteq> []" if "GROUP_LINKS st cid = Some l" for cid l
    using reachable_links [OF assms that] by (simp add: valid_url_not_Nil)
  have assoc: "\<exists>l. get_link cfg st cid = Some l \<and> valid_url l \<and> l \<noteq> []"
    if "DEFAULT_LINK cfg = Some d" and "valid_url d" for d cid
  proof (cases "GROUP_LINKS st cid")
    case None
    with that show ?thesis
      by (simp add: get_link_def valid_url_not_Nil)
  next
    case (Some l)
    with stored [OF Some] show ?thesis
      by (simp add: get_link_def)
  qed
  have rejected: "fst (set_link cfg e m st) = st"
    if "length (py_split (msg_text m)) < 2 \<or> \<not> valid_url (py_split (msg_text m) ! 1)" for e m
  proof (cases "is_admin cfg (from_user_id m) \<or> is_group_admin e m")
    case True
    then show ?thesis
      using that by (simp add: set_link_rejects reply_to_def)
  next
    case False
    then show ?thesis
      by (simp add: set_link_unauthorized reply_to_def)
  qed
  from stored assoc rejected show ?thesis
    by blast
qed

lemma joined_state_reachable: "reachable cfg (fst (new_member cfg e m (initial_state iv)))"
  using reachable.event [OF reachable.start, of cfg "Inbound NewMember e m" iv] by simp

lemma linked_state_reachable: "reachable sample_cfg linked_state"
  using reachable.event [OF joined_state_reachable,
          of sample_cfg "Inbound SetLink sample_env (sample_msg 1 ''/setlink https://a.example'')"
             sample_env bot_joined 86400]
  by (simp add: linked_state_def joined_state_def)

lemma linked_state_eq:
  "linked_state =
     \<lparr>ACTIVE_GROUPS = {5}, GROUP_LINKS = [5 \<mapsto> ''https://a.example''],
      GROUP_INFO = [(5, \<lparr>title = ''Group'', link = Some ''https://a.example''\<rparr>)],
      LAST_MESSAGE_TIMES = [5 \<mapsto> 1000], MESSAGE_INTERVAL = 86400\<rparr>"
proof -
  have auth: "is_admin sample_cfg (from_user_id (sample_msg 1 ''/setlink https://a.example'')) \<or>
    is_group_admin sample_env (sample_msg 1 ''/setlink https://a.example'')"
    by (simp add: is_admin_def sample_cfg_def sample_msg_def)
  have split: "py_split (msg_text (sample_msg 1 ''/setlink https://a.example'')) =
     [''/setlink'', ''https://a.example'']"
    by (simp add: sample_msg_def py_split_setlink)
  show ?thesis
    unfolding linked_state_def set_link_accepts [OF auth split valid_url_examples(1)]
    by (simp add: reply_to_def joined_state_eq sample_msg_def)
qed

lemma py_split_setlink_ftp: "py_split ''/setlink ftp://a.example'' = [''/setlink'', ''ftp://a.example'']"
  by (simp add: py_split.simps is_space_def)

text \<open>
  The state after \<^verbatim>\<open>/setlink https://a.example\<close> in chat 5 is reachable; chat 5 has
  the override, chat 8 the default, and \<^verbatim>\<open>/setlink ftp://a.example\<close> changes nothing.
\<close>

theorem stored_links_are_urls_witness:
  "reachable sample_cfg linked_state \<and>
   GROUP_LINKS linked_state 5 = Some ''https://a.example'' \<and>
   valid_url ''https://a.example'' \<and>
   DEFAULT_LINK sample_cfg = Some ''https://t.me/default'' \<and>
   valid_url ''https://t.me/default'' \<and>
   get_link sample_cfg linked_state 5 = Some ''https://a.example'' \<and>
   get_link sample_cfg linked_state 8 = Some ''https://t.me/default'' \<and>
   \<not> valid_url (py_split (msg_text (sample_msg 1 ''/setlink ftp://a.example'')) ! 1) \<and>
   fst (set_link sample_cfg sample_env (sample_msg 1 ''/setlink ftp://a.example'') linked_state) =
     linked_state"
proof -
  have default: "valid_url ''https://t.me/default''"
    by (simp add: valid_url_def startswith_def)
  have bad: "\<not> valid_url (py_split (msg_text (sample_msg 1 ''/setlink ftp://a.example'')) ! 1)"
    by (simp add: sample_msg_def py_split_setlink_ftp valid_url_examples)
  have links: "GROUP_LINKS linked_state 5 = Some ''https://a.example''"
    "get_link sample_cfg linked_state 5 = Some ''https://a.example''"
    "get_link sample_cfg linked_state 8 = Some ''https://t.me/default''"
    by (simp_all add: linked_state_eq get_link_def sample_cfg_def)
  have "fst (set_link sample_cfg sample_env (sample_msg 1 ''/setlink ftp://a.example'')
               linked_state) = linked_state"
    using stored_links_are_urls [OF linked_state_reachable] bad by blast
  with default bad links linked_state_reachable show ?thesis
    by (simp add: valid_url_examples sample_cfg_def)
qed

text \<open>
  Claim C7 as stated fails: with \<^verbatim>\<open>DEFAULT_LINK=example.org\<close> in the environment, the
  link of chat 5 in the initial state is \<^verbatim>\<open>example.org\<close>.
\<close>

theorem default_link_not_checked:
  "reachable unchecked_cfg (initial_state 86400) \<and>
   get_link unchecked_cfg (initial_state 86400) 5 = Some ''example.org'' \<and>
   \<not> valid_url ''example.org''"
proof -
  have "reachable unchecked_cfg (initial_state 86400)"
    by (rule reachable.start)
  then show ?thesis
    by (simp add: get_link_def unchecked_cfg_def valid_url_def startswith_def)
       (simp add: initial_state_def)
qed

section \<open>Removal and re-add\<close>

lemma left_member_removes:
  assumes "get_me e = Some (left_chat_member m)"
  shows "fst (left_member cfg e m st) =
           st\<lparr>ACTIVE_GROUPS := ACTIVE_GROUPS st - {chat_id m},
              GROUP_INFO := AList.delete (chat_id m) (GROUP_INFO st)\<rparr>"
  using assms by (simp add: left_member_def Let_def)

lemma get_link_active [simp]:
  "get_link cfg (st\<lparr>ACTIVE_GROUPS := A\<rparr>) = get_link cfg st"
  by (simp add: get_link_def fun_eq_iff)

lemma new_member_first_loop_result:
  assumes "get_me e = Some me" and "get_chat e (chat_id m) = Some ttl"
  shows "GROUP_INFO (fst (new_member_first_loop cfg e m ms st)) =
           (if me \<in> set ms
            then AList.update (chat_id m) \<lparr>title = ttl, link = get_link cfg st (chat_id m)\<rparr>
                   (GROUP_INFO st)
            else GROUP_INFO st) \<and>
         ACTIVE_GROUPS (fst (new_member_first_loop cfg e m ms st)) =
           (if me \<in> set ms then insert (chat_id m) (ACTIVE_GROUPS st) else ACTIVE_GROUPS st)"
proof (induction ms arbitrary: st)
  case Nil
  show ?case by simp
next
  case (Cons a ms)
  let ?st1 = "fst (send_welcome_and_link cfg e (chat_id m)
                     (st\<lparr>ACTIVE_GROUPS := insert (chat_id m) (ACTIVE_GROUPS st)\<rparr>))"
  have link: "get_link cfg ?st1 = get_link cfg st"
    by (simp add: get_link_def fun_eq_iff send_welcome_keeps)
  have info: "GROUP_INFO ?st1 =
      AList.update (chat_id m) \<lparr>title = ttl, link = get_link cfg st (chat_id m)\<rparr> (GROUP_INFO st)"
    by (simp add: send_welcome_info assms(2))
  have act: "ACTIVE_GROUPS ?st1 = insert (chat_id m) (ACTIVE_GROUPS st)"
    by (simp add: send_welcome_keeps)
  show ?case
  proof (cases "a = me")
    case True
    then have "fst (new_member_first_loop cfg e m (a # ms) st) =
                 fst (new_member_first_loop cfg e m ms ?st1)"
      by (simp add: assms(1) split_beta fst_after)
    then show ?thesis
      using Cons.IH [of ?st1] True by (simp add: link info act)
  next
    case False
    then have "fst (new_member_first_loop cfg e m (a # ms) st) =
                 fst (new_member_first_loop cfg e m ms st)"
      by (simp add: assms(1))
    then show ?thesis
      using Cons.IH [of st] False by simp
  qed
qed

lemma new_member_loop_result:
  assumes "get_me e = Some me" and "get_chat e (chat_id m) = Some ttl"
  shows "GROUP_INFO (fst (new_member_loop cfg e m ms st)) =
           (if me \<in> set ms
            then AList.update (chat_id m) \<lparr>title = ttl, link = get_link cfg st (chat_id m)\<rparr>
                   (GROUP_INFO st)
            else GROUP_INFO st) \<and>
         ACTIVE_GROUPS (fst (new_member_loop cfg e m ms st)) =
           (if me \<in> set ms then insert (chat_id m) (ACTIVE_GROUPS st) else ACTIVE_GROUPS st)"
proof (induction ms arbitrary: st)
  case Nil
  show ?case by simp
next
  case (Cons a ms)
  let ?st1 = "fst (send_welcome_and_link cfg e (chat_id m)
                     (st\<lparr>ACTIVE_GROUPS := insert (chat_id m) (ACTIVE_GROUPS st)\<rparr>))"
  have link: "get_link cfg ?st1 = get_link cfg st"
    by (simp add: get_link_def fun_eq_iff send_welcome_keeps)
  have info: "GROUP_INFO ?st1 =
      AList.update (chat_id m) \<lparr>title = ttl, link = get_link cfg st (chat_id m)\<rparr> (GROUP_INFO st)"
    by (simp add: send_welcome_info assms(2))
  have act: "ACTIVE_GROUPS ?st1 = insert (chat_id m) (ACTIVE_GROUPS st)"
    by (simp add: send_welcome_keeps)
  show ?case
  proof (cases "a = me")
    case True
    then have "fst (new_member_loop cfg e m (a # ms) st) = fst (new_member_loop cfg e m ms ?st1)
               \<or> fst (new_member_loop cfg e m (a # ms) st) = ?st1 \<and>
                  (is_admin cfg (from_user_id m) \<or> is_group_admin e m) \<and>
                  \<not> send_message_ok e (chat_id m) AdminTip"
      by (simp add: assms(1) split_beta fst_after)
    then show ?thesis
    proof
      assume "fst (new_member_loop cfg e m (a # ms) st) = fst (new_member_loop cfg e m ms ?st1)"
      then show ?thesis
        using Cons.IH [of ?st1] True by (simp add: link info act)
    next
      assume "fst (new_member_loop cfg e m (a # ms) st) = ?st1 \<and>
                  (is_admin cfg (from_user_id m) \<or> is_group_admin e m) \<and>
                  \<not> send_message_ok e (chat_id m) AdminTip"
      then show ?thesis
        using True by (simp add: info act)
    qed
  next
    case False
    then have "fst (new_member_loop cfg e m (a # ms) st) = fst (new_member_loop cfg e m ms st)"
      by (simp add: assms(1))
    then show ?thesis
      using Cons.IH [of st] False by simp
  qed
qed

lemma filter_update_fresh:
  "k \<notin> fst ` set al \<Longrightarrow> filter (\<lambda>p. fst p = k) (AList.update k v al) = [(k, v)]"
  by (induction al) auto

text \<open>
  Claim C1, as amended. When the bot is removed from a chat, the chat leaves the
  active set and its info record is deleted, but \<^verbatim>\<open>GROUP_LINKS\<close> is not touched. When
  the bot is added again and the lookup of the chat succeeds, \<^verbatim>\<open>GROUP_INFO\<close> holds exactly
  one entry for the chat id; its link is the link the chat had before the removal,
  that is the override if one was set and \<^verbatim>\<open>DEFAULT_LINK\<close> otherwise. This holds for
  both registered definitions of \<^verbatim>\<open>new_member\<close>.
\<close>

theorem readded_chat_keeps_override:
  assumes "get_me e1 = Some (left_chat_member m1)"
    and "get_me e2 = Some me" and "me \<in> set (new_chat_members m2)"
    and "chat_id m2 = chat_id m1"
    and "get_chat e2 (chat_id m1) = Some ttl"
    and "h = NewMemberFirst \<or> h = NewMember"
  shows "chat_id m1 \<notin> ACTIVE_GROUPS (fst (left_member cfg e1 m1 st)) \<and>
         chat_id m1 \<notin> fst ` set (GROUP_INFO (fst (left_member cfg e1 m1 st))) \<and>
         GROUP_LINKS (fst (left_member cfg e1 m1 st)) = GROUP_LINKS st \<and>
         filter (\<lambda>p. fst p = chat_id m1)
           (GROUP_INFO (fst (handle cfg h e2 m2 (fst (left_member cfg e1 m1 st))))) =
           [(chat_id m1, \<lparr>title = ttl, link = get_link cfg st (chat_id m1)\<rparr>)] \<and>
         chat_id m1 \<in> ACTIVE_GROUPS (fst (handle cfg h e2 m2 (fst (left_member cfg e1 m1 st))))"
proof -
  let ?st1 = "fst (left_member cfg e1 m1 st)"
  have st1: "?st1 = st\<lparr>ACTIVE_GROUPS := ACTIVE_GROUPS st - {chat_id m1},
                        GROUP_INFO := AList.delete (chat_id m1) (GROUP_INFO st)\<rparr>"
    by (rule left_member_removes [OF assms(1)])
  have absent: "chat_id m1 \<notin> fst ` set (GROUP_INFO ?st1)"
    by (simp add: st1 delete_notin_dom)
  have link: "get_link cfg ?st1 = get_link cfg st"
    by (simp add: st1 get_link_def fun_eq_iff)
  have chat: "get_chat e2 (chat_id m2) = Some ttl"
    by (simp add: assms(4,5))
  have "GROUP_INFO (fst (handle cfg h e2 m2 ?st1)) =
          AList.update (chat_id m1) \<lparr>title = ttl, link = get_link cfg st (chat_id m1)\<rparr>
            (GROUP_INFO ?st1) \<and>
        ACTIVE_GROUPS (fst (handle cfg h e2 m2 ?st1)) = insert (chat_id m1) (ACTIVE_GROUPS ?st1)"
    using assms(6)
  proof
    assume "h = NewMemberFirst"
    then show ?thesis
      using new_member_first_loop_result [OF assms(2) chat, of cfg "new_chat_members m2" ?st1]
      by (simp add: new_member_first_def assms(3,4) link)
  next
    assume "h = NewMember"
    then show ?thesis
      using new_member_loop_result [OF assms(2) chat, of cfg "new_chat_members m2" ?st1]
      by (simp add: new_member_def assms(3,4) link)
  qed
  then have "filter (\<lambda>p. fst p = chat_id m1) (GROUP_INFO (fst (handle cfg h e2 m2 ?st1))) =
               [(chat_id m1, \<lparr>title = ttl, link = get_link cfg st (chat_id m1)\<rparr>)]"
    and "chat_id m1 \<in> ACTIVE_GROUPS (fst (handle cfg h e2 m2 ?st1))"
    using absent by (simp_all add: filter_update_fresh)
  moreover have "chat_id m1 \<notin> ACTIVE_GROUPS ?st1" and "GROUP_LINKS ?st1 = GROUP_LINKS st"
    by (simp_all add: st1)
  ultimately show ?thesis
    using absent by simp
qed


lemma sample_leave_join:
  "get_me sample_env = Some (left_chat_member bot_left)"
  "get_me sample_env = Some 99"
  "99 \<in> set (new_chat_members bot_joined)"
  "chat_id bot_joined = chat_id bot_left"
  "get_chat sample_env (chat_id bot_left) = Some ''Group''"
  "chat_id bot_left = 5"
  by (simp_all add: sample_env_def bot_left_def bot_joined_def sample_msg_def)

text \<open>
  Chat 5 without an override: after removal and re-add its one entry has the default
  link.
\<close>

theorem readded_chat_keeps_override_witness:
  "get_me sample_env = Some (left_chat_member bot_left) \<and>
   get_me sample_env = Some 99 \<and> 99 \<in> set (new_chat_members bot_joined) \<and>
   chat_id bot_joined = chat_id bot_left \<and>
   get_chat sample_env (chat_id bot_left) = Some ''Group'' \<and>
   5 \<notin> ACTIVE_GROUPS (fst (left_member sample_cfg sample_env bot_left joined_state)) \<and>
   GROUP_INFO (fst (left_member sample_cfg sample_env bot_left joined_state)) = [] \<and>
   filter (\<lambda>p. fst p = 5)
     (GROUP_INFO (fst (handle sample_cfg NewMember sample_env bot_joined
        (fst (left_member sample_cfg sample_env bot_left joined_state))))) =
     [(5, \<lparr>title = ''Group'', link = DEFAULT_LINK sample_cfg\<rparr>)]"
proof -
  have "GROUP_INFO (fst (left_member sample_cfg sample_env bot_left joined_state)) = []"
    by (simp add: left_member_removes [OF sample_leave_join(1)] joined_state_eq
          sample_leave_join(6))
  moreover have "get_link sample_cfg joined_state 5 = DEFAULT_LINK sample_cfg"
    by (simp add: get_link_def joined_state_eq)
  ultimately show ?thesis
    using readded_chat_keeps_override
            [OF sample_leave_join(1,2,3,4,5), of NewMember sample_cfg joined_state]
          sample_leave_join
    by simp
qed

text \<open>
  Claim C1 as stated fails: the admin sets \<^verbatim>\<open>https://a.example\<close> in chat 5, the bot is
  removed and added again, and the entry of chat 5 has the old override, not the
  default link.
\<close>

theorem override_survives_removal:
  "reachable sample_cfg linked_state \<and>
   GROUP_LINKS (fst (left_member sample_cfg sample_env bot_left linked_state)) 5 =
     Some ''https://a.example'' \<and>
   GROUP_INFO (fst (new_member sample_cfg sample_env bot_joined
      (fst (left_member sample_cfg sample_env bot_left linked_state)))) =
     [(5, \<lparr>title = ''Group'', link = Some ''https://a.example''\<rparr>)] \<and>
   DEFAULT_LINK sample_cfg = Some ''https://t.me/default''"
proof -
  have left: "fst (left_member sample_cfg sample_env bot_left linked_state) =
     \<lparr>ACTIVE_GROUPS = {}, GROUP_LINKS = [5 \<mapsto> ''https://a.example''], GROUP_INFO = [],
      LAST_MESSAGE_TIMES = [5 \<mapsto> 1000], MESSAGE_INTERVAL = 86400\<rparr>"
    by (simp add: left_member_removes [OF sample_leave_join(1)] linked_state_eq
          sample_leave_join(6))
  have "GROUP_INFO (fst (new_member sample_cfg sample_env bot_joined
      (fst (left_member sample_cfg sample_env bot_left linked_state)))) =
     [(5, \<lparr>title = ''Group'', link = Some ''https://a.example''\<rparr>)]"
    unfolding left
    by (simp add: new_member_def bot_joined_def sample_msg_def sample_env_def
          send_welcome_and_link_def get_link_def after_def is_admin_def is_group_admin_def)
  moreover have "DEFAULT_LINK sample_cfg = Some ''https://t.me/default''"
    by (simp add: sample_cfg_def)
  ultimately show ?thesis
    using linked_state_reachable by (simp add: left)
qed

text \<open>
  Claim C10. An authorized \<^verbatim>\<open>setlink\<close> with a valid URL stores the override under the
  chat id of the message, for every kind of chat and without looking at or changing
  the active set. Removing the bot deletes the info record of the chat and takes it
  out of the active set, and keeps every override. Hence, in every configuration, a
  state is reachable in which a chat has an override and is neither active nor has an
  info record.
\<close>

theorem override_outside_active_set:
  "((is_admin cfg (from_user_id m) \<or> is_group_admin e m) \<and>
    py_split (msg_text m) = cmd # u # rest \<and> valid_url u \<longrightarrow>
      GROUP_LINKS (fst (set_link cfg e m st)) (chat_id m) = Some u \<and>
      ACTIVE_GROUPS (fst (set_link cfg e m st)) = ACTIVE_GROUPS st) \<and>
   (get_me e' = Some (left_chat_member m') \<longrightarrow>
      GROUP_LINKS (fst (left_member cfg e' m' st)) = GROUP_LINKS st \<and>
      chat_id m' \<notin> fst ` set (GROUP_INFO (fst (left_member cfg e' m' st))) \<and>
      chat_id m' \<notin> ACTIVE_GROUPS (fst (left_member cfg e' m' st))) \<and>
   (\<exists>s cid. reachable cfg s \<and> cid \<in> dom (GROUP_LINKS s) \<and> cid \<notin> ACTIVE_GROUPS s \<and>
             cid \<notin> fst ` set (GROUP_INFO s))"
proof -
  let ?m = "sample_msg 2 ''/setlink https://a.example''"
  let ?s1 = "fst (new_member cfg sample_env bot_joined (initial_state 0))"
  let ?s2 = "fst (set_link cfg sample_env ?m ?s1)"
  let ?s3 = "fst (left_member cfg sample_env bot_left ?s2)"
  have auth: "is_admin cfg (from_user_id ?m) \<or> is_group_admin sample_env ?m"
    by (simp add: is_group_admin_def sample_env_def sample_msg_def)
  have split: "py_split (msg_text ?m) = [''/setlink'', ''https://a.example'']"
    by (simp add: sample_msg_def py_split_setlink)
  have "reachable cfg ?s2"
    using reachable.event [OF joined_state_reachable, of cfg "Inbound SetLink sample_env ?m"]
    by simp
  then have r3: "reachable cfg ?s3"
    using reachable.event [of cfg ?s2 "Inbound LeftMember sample_env bot_left"] by simp
  have cid: "chat_id ?m = 5"
    by (simp add: sample_msg_def)
  have "GROUP_LINKS ?s2 5 = Some ''https://a.example''"
    using set_link_accepts [OF auth split valid_url_examples(1), of ?s1]
    by (simp add: reply_to_def cid)
  then have "5 \<in> dom (GROUP_LINKS ?s3)" and "5 \<notin> ACTIVE_GROUPS ?s3"
    and "5 \<notin> fst ` set (GROUP_INFO ?s3)"
    by (simp_all add: left_member_removes [OF sample_leave_join(1)] sample_leave_join(6)
          delete_notin_dom dom_def)
  with r3 have ex: "\<exists>s cid. reachable cfg s \<and> cid \<in> dom (GROUP_LINKS s) \<and>
      cid \<notin> ACTIVE_GROUPS s \<and> cid \<notin> fst ` set (GROUP_INFO s)"
    by blast
  have set: "GROUP_LINKS (fst (set_link cfg e m st)) (chat_id m) = Some u \<and>
      ACTIVE_GROUPS (fst (set_link cfg e m st)) = ACTIVE_GROUPS st"
    if "is_admin cfg (from_user_id m) \<or> is_group_admin e m"
      and "py_split (msg_text m) = cmd # u # rest" and "valid_url u"
    by (simp add: set_link_accepts [OF that] reply_to_def)
  have left: "GROUP_LINKS (fst (left_member cfg e' m' st)) = GROUP_LINKS st \<and>
      chat_id m' \<notin> fst ` set (GROUP_INFO (fst (left_member cfg e' m' st))) \<and>
      chat_id m' \<notin> ACTIVE_GROUPS (fst (left_member cfg e' m' st))"
    if "get_me e' = Some (left_chat_member m')"
    by (simp add: left_member_removes [OF that] delete_notin_dom)
  from ex set left show ?thesis
    by blast
qed

text \<open>
  In the sample configuration: chat 5 keeps \<^verbatim>\<open>https://a.example\<close> after the bot left.
\<close>

theorem override_outside_active_set_witness:
  "(is_admin sample_cfg (from_user_id (sample_msg 1 ''/setlink https://a.example'')) \<or>
    is_group_admin sample_env (sample_msg 1 ''/setlink https://a.example'')) \<and>
   py_split (msg_text (sample_msg 1 ''/setlink https://a.example'')) =
     [''/setlink'', ''https://a.example''] \<and>
   valid_url ''https://a.example'' \<and>
   GROUP_LINKS linked_state 5 = Some ''https://a.example'' \<and>
   get_me sample_env = Some (left_chat_member bot_left) \<and>
   GROUP_LINKS (fst (left_member sample_cfg sample_env bot_left linked_state)) 5 =
     Some ''https://a.example'' \<and>
   5 \<notin> fst ` set (GROUP_INFO (fst (left_member sample_cfg sample_env bot_left linked_state))) \<and>
   5 \<notin> ACTIVE_GROUPS (fst (left_member sample_cfg sample_env bot_left linked_state))"
proof -
  have auth: "is_admin sample_cfg (from_user_id (sample_msg 1 ''/setlink https://a.example'')) \<or>
    is_group_admin sample_env (sample_msg 1 ''/setlink https://a.example'')"
    by (simp add: is_admin_def sample_cfg_def sample_msg_def)
  have split: "py_split (msg_text (sample_msg 1 ''/setlink https://a.example'')) =
     [''/setlink'', ''https://a.example'']"
    by (simp add: sample_msg_def py_split_setlink)
  have link: "GROUP_LINKS linked_state 5 = Some ''https://a.example''"
    by (simp add: linked_state_eq)
  show ?thesis
    using override_outside_active_set
            [of sample_cfg "sample_msg 1 ''/setlink https://a.example''" sample_env
                "''/setlink''" "''https://a.example''" "[]" joined_state sample_env bot_left]
          override_outside_active_set
            [of sample_cfg "sample_msg 1 ''/setlink https://a.example''" sample_env
                "''/setlink''" "''https://a.example''" "[]" linked_state sample_env bot_left]
          auth split link sample_leave_join(1)
    by (simp add: valid_url_examples sample_leave_join(6))
qed

section \<open>The broadcaster from the start of the process\<close>


lemma scheduler_state:
  "fst (scheduler cfg ((e, msgs) # rest) st) =
     fst (scheduler cfg rest (polling cfg msgs (fst (loop_iteration cfg e st))))"
  by (simp add: split_beta)











end
